theory Spec2Isabelle
  imports
    Complex_Main
    "HOL-Library.Word"
    "HOL-Library.Signed_Division"
    "HOL-Library.Log_Nat"
begin

section \<open>The calculator's expression evaluator (src/calc.cpp)\<close>

text \<open>
  The C++ class \<^verbatim>\<open>Parser\<close> holds the expression \<^verbatim>\<open>expr\<close> (never changed) and
  the cursor \<^verbatim>\<open>pos\<close>. Every member function is modelled as a function of the expression
  and the cursor on entry that returns its C++ result together with the cursor on exit.
  A \<^verbatim>\<open>throw\<close> is the left summand of the result; the cursor returned with it is the
  cursor at the moment of the throw.

  The arithmetic on \<^verbatim>\<open>double\<close>, \<^verbatim>\<open>std::pow\<close>, \<^verbatim>\<open>std::stod\<close> and the two casts between
  \<^verbatim>\<open>double\<close> and \<^verbatim>\<open>long long\<close> belong to the C++ implementation, not to the
  repository. The parser is therefore modelled over a record of these operations
  (\<open>arith\<close>); what is proved for every such record holds for the real arithmetic.
  Section ``IEEE 754 binary64'' gives the instance used to compute concrete results.
\<close>

subsection \<open>Failures\<close>

text \<open>
  \<^verbatim>\<open>std::stod\<close> throws \<^verbatim>\<open>std::invalid_argument\<close> when no conversion could be performed
  and \<^verbatim>\<open>std::out_of_range\<close> when the value is out of the range of \<^verbatim>\<open>double\<close>.
\<close>

datatype stod_error = InvalidArgument | OutOfRange

text \<open>
  The ways an evaluation ends without a value. The first five are the
  \<^verbatim>\<open>runtime_error\<close>s the parser throws itself; the argument is the cursor that the
  message text includes (\<^verbatim>\<open>to_string(pos)\<close>). \<open>StodError\<close> is an exception thrown by
  \<^verbatim>\<open>std::stod\<close> (\<^verbatim>\<open>main\<close> catches \<^verbatim>\<open>std::exception\<close>, so it ends the evaluation like
  the others). \<open>UndefinedBehaviour\<close> is not an exception: it marks an execution to which
  the C++ standard gives no meaning (a cast of a \<^verbatim>\<open>double\<close> whose truncation does not
  fit \<^verbatim>\<open>long long\<close>, or \<^verbatim>\<open>LLONG_MIN % -1\<close>).
\<close>

datatype failure =
    ExpectedNumber nat
  | UnmatchedParenthesis
  | DivisionByZero
  | ModuloByZero
  | TrailingInput nat
  | StodError stod_error
  | UndefinedBehaviour

function to_string :: "nat \<Rightarrow> string" where
  "to_string n =
     (if n < 10 then [char_of (48 + n)]
      else to_string (n div 10) @ [char_of (48 + n mod 10)])"
  by pat_completeness auto
termination
  by (relation "measure id") auto

declare to_string.simps [simp del]

text \<open>The text of \<^verbatim>\<open>e.what()\<close>, as \<^verbatim>\<open>main\<close> prints it after \<^verbatim>\<open>Error: \<close>.\<close>

fun what :: "failure \<Rightarrow> string" where
  "what (ExpectedNumber p) = ''Expected number at pos '' @ to_string p"
| "what UnmatchedParenthesis = ''Missing '' @ [CHR 0x27, CHR '')'', CHR 0x27]"
| "what DivisionByZero = ''Division by zero''"
| "what ModuloByZero = ''Modulo by zero''"
| "what (TrailingInput p) = ''Unexpected trailing input at pos '' @ to_string p"
| "what (StodError x) = ''stod''"
| "what UndefinedBehaviour = []"

text \<open>The cursor offset a failure carries, for those whose message includes one.\<close>

fun failure_offset :: "failure \<Rightarrow> nat option" where
  "failure_offset (ExpectedNumber p) = Some p"
| "failure_offset (TrailingInput p) = Some p"
| "failure_offset UnmatchedParenthesis = None"
| "failure_offset DivisionByZero = None"
| "failure_offset ModuloByZero = None"
| "failure_offset (StodError x) = None"
| "failure_offset UndefinedBehaviour = None"

subsection \<open>The arithmetic the parser uses\<close>

text \<open>
  \<^item> \<open>stod\<close>: \<^verbatim>\<open>std::stod\<close> on the text of a literal;
  \<^item> \<open>dneg\<close>, \<open>dadd\<close>, \<open>dsub\<close>, \<open>dmul\<close>, \<open>ddiv\<close>: unary minus, \<^verbatim>\<open>+\<close>, \<^verbatim>\<open>-\<close>, \<^verbatim>\<open>*\<close>, \<^verbatim>\<open>/\<close>
    on \<^verbatim>\<open>double\<close>;
  \<^item> \<open>dpow\<close>: \<^verbatim>\<open>std::pow\<close>;
  \<^item> \<open>is_zero\<close>: the comparison \<^verbatim>\<open>d == 0\<close>;
  \<^item> \<open>to_ll\<close>: \<^verbatim>\<open>static_cast<long long>(x)\<close>, \<open>None\<close> where the cast is undefined;
  \<^item> \<open>of_ll\<close>: \<^verbatim>\<open>static_cast<double>(n)\<close>.
\<close>

record 'v arith =
  stod :: "string \<Rightarrow> stod_error + 'v"
  dneg :: "'v \<Rightarrow> 'v"
  dadd :: "'v \<Rightarrow> 'v \<Rightarrow> 'v"
  dsub :: "'v \<Rightarrow> 'v \<Rightarrow> 'v"
  dmul :: "'v \<Rightarrow> 'v \<Rightarrow> 'v"
  ddiv :: "'v \<Rightarrow> 'v \<Rightarrow> 'v"
  dpow :: "'v \<Rightarrow> 'v \<Rightarrow> 'v"
  is_zero :: "'v \<Rightarrow> bool"
  to_ll :: "'v \<Rightarrow> 64 word option"
  of_ll :: "64 word \<Rightarrow> 'v"

subsection \<open>Utilities\<close>

text \<open>
  \<^verbatim>\<open>isspace\<close> and \<^verbatim>\<open>isdigit\<close> of \<^verbatim>\<open><cctype>\<close> in the C locale (the program never
  calls \<^verbatim>\<open>setlocale\<close>), on the character converted to \<^verbatim>\<open>unsigned char\<close>: the space
  characters are space, \<^verbatim>\<open>\t \n \v \f \r\<close> (codes 32 and 9 to 13), the digits are
  \<^verbatim>\<open>0\<close> to \<^verbatim>\<open>9\<close> (codes 48 to 57).
\<close>

definition isspace :: "char \<Rightarrow> bool" where
  "isspace c = (c = CHR '' '' \<or> (9::nat) \<le> of_char c \<and> of_char c \<le> (13::nat))"

definition isdigit :: "char \<Rightarrow> bool" where
  "isdigit c = ((48::nat) \<le> of_char c \<and> of_char c \<le> (57::nat))"

text \<open>
  \<^verbatim>\<open>while (pos < expr.size() && isspace(expr[pos])) pos++;\<close>
\<close>

function skipSpaces :: "string \<Rightarrow> nat \<Rightarrow> nat" where
  "skipSpaces e p = (if p < length e \<and> isspace (e ! p) then skipSpaces e (Suc p) else p)"
  by pat_completeness auto
termination
  by (relation "measure (\<lambda>(e, p). length e - p)") auto

declare skipSpaces.simps [simp del]

text \<open>
  \<^verbatim>\<open>skipSpaces(); if (pos < expr.size() && expr[pos] == c) { ++pos; return true; } return false;\<close>
\<close>

definition match :: "string \<Rightarrow> char \<Rightarrow> nat \<Rightarrow> bool \<times> nat" where
  "match e c p0 =
     (let p = skipSpaces e p0
      in if p < length e \<and> e ! p = c then (True, Suc p) else (False, p))"

text \<open>
  \<^verbatim>\<open>while (s[i] && start + i < expr.size() && expr[start + i] == s[i]) i++;\<close>
  The C string \<^verbatim>\<open>s\<close> is a list of characters here; \<^verbatim>\<open>s[i]\<close> is the terminating zero
  exactly when \<open>i = length s\<close>.
\<close>

function matchStr_loop :: "string \<Rightarrow> string \<Rightarrow> nat \<Rightarrow> nat \<Rightarrow> nat" where
  "matchStr_loop e s start i =
     (if i < length s \<and> start + i < length e \<and> e ! (start + i) = s ! i
      then matchStr_loop e s start (Suc i) else i)"
  by pat_completeness auto
termination
  by (relation "measure (\<lambda>(e, s, start, i). length s - i)") auto

declare matchStr_loop.simps [simp del]

text \<open>
  \<^verbatim>\<open>skipSpaces(); size_t i = 0; size_t start = pos; (loop)
  if (!s[i]) { pos = start + i; return true; } return false;\<close>
\<close>

definition matchStr :: "string \<Rightarrow> string \<Rightarrow> nat \<Rightarrow> bool \<times> nat" where
  "matchStr e s p0 =
     (let start = skipSpaces e p0; i = matchStr_loop e s start 0
      in if \<not> i < length s then (True, start + i) else (False, start))"

text \<open>
  \<^verbatim>\<open>skipSpaces(); return (pos < expr.size() ? expr[pos] : '\0');\<close>
\<close>

definition peek :: "string \<Rightarrow> nat \<Rightarrow> char \<times> nat" where
  "peek e p0 = (let p = skipSpaces e p0 in (if p < length e then e ! p else CHR 0x00, p))"

text \<open>
  \<^verbatim>\<open>char c = peek(); return (c == '(') || isdigit(c) || (c == '.');\<close>
\<close>

definition nextStartsFactor :: "string \<Rightarrow> nat \<Rightarrow> bool \<times> nat" where
  "nextStartsFactor e p0 =
     (case peek e p0 of (c, p) \<Rightarrow> (c = CHR ''('' \<or> isdigit c \<or> c = CHR ''.'', p))"

subsection \<open>Number literals\<close>

text \<open>
  The first loop of \<^verbatim>\<open>parseNumber\<close>:
  \<^verbatim>\<open>while (pos < expr.size()) { char c = expr[pos];
    if (isdigit(c)) { seenDigit = true; ++pos; }
    else if (c == '.' && !seenDot) { seenDot = true; ++pos; }
    else break; }\<close>
\<close>

function scanMantissa :: "string \<Rightarrow> bool \<Rightarrow> bool \<Rightarrow> nat \<Rightarrow> bool \<times> bool \<times> nat" where
  "scanMantissa e seenDigit seenDot p =
     (if p < length e then
        (if isdigit (e ! p) then scanMantissa e True seenDot (Suc p)
         else if e ! p = CHR ''.'' \<and> \<not> seenDot then scanMantissa e seenDigit True (Suc p)
         else (seenDigit, seenDot, p))
      else (seenDigit, seenDot, p))"
  by pat_completeness auto
termination
  by (relation "measure (\<lambda>(e, sd, sdot, p). length e - p)") auto

declare scanMantissa.simps [simp del]

text \<open>
  \<^verbatim>\<open>while (pos < expr.size() && isdigit(expr[pos])) { expDigits = true; ++pos; }\<close>
\<close>

function scanDigits :: "string \<Rightarrow> bool \<Rightarrow> nat \<Rightarrow> bool \<times> nat" where
  "scanDigits e expDigits p =
     (if p < length e \<and> isdigit (e ! p) then scanDigits e True (Suc p) else (expDigits, p))"
  by pat_completeness auto
termination
  by (relation "measure (\<lambda>(e, b, p). length e - p)") auto

declare scanDigits.simps [simp del]

text \<open>
  The speculative scan of a scientific-notation suffix:
  \<^verbatim>\<open>if (pos < expr.size() && (expr[pos] == 'e' || expr[pos] == 'E')) {
    size_t save = pos++;
    if (pos < expr.size() && (expr[pos] == '+' || expr[pos] == '-')) ++pos;
    bool expDigits = false; (loop)
    if (!expDigits) pos = save; }\<close>
\<close>

definition scanExponent :: "string \<Rightarrow> nat \<Rightarrow> nat" where
  "scanExponent e p =
     (if p < length e \<and> (e ! p = CHR ''e'' \<or> e ! p = CHR ''E'') then
        (let save = p;
             p1 = Suc p;
             p2 = (if p1 < length e \<and> (e ! p1 = CHR ''+'' \<or> e ! p1 = CHR ''-'')
                   then Suc p1 else p1)
         in case scanDigits e False p2 of (expDigits, p3) \<Rightarrow> if \<not> expDigits then save else p3)
      else p)"

text \<open>\<^verbatim>\<open>expr.substr(start, n)\<close> for \<open>start \<le> length s\<close> (always the case in \<^verbatim>\<open>parseNumber\<close>).\<close>

definition substr :: "string \<Rightarrow> nat \<Rightarrow> nat \<Rightarrow> string" where
  "substr s start n = take n (drop start s)"

text \<open>
  \<^verbatim>\<open>skipSpaces(); size_t start = pos; bool seenDigit = false, seenDot = false;
  (mantissa loop) (exponent suffix)
  if (!seenDigit && !(pos > start)) throw runtime_error("Expected number at pos " + to_string(pos));
  return stod(expr.substr(start, pos - start));\<close>
\<close>

definition parseNumber :: "'v arith \<Rightarrow> string \<Rightarrow> nat \<Rightarrow> (failure + 'v) \<times> nat" where
  "parseNumber A e p0 =
     (let start = skipSpaces e p0
      in case scanMantissa e False False start of (seenDigit, seenDot, p1) \<Rightarrow>
         (let pos = scanExponent e p1
          in if \<not> seenDigit \<and> \<not> (pos > start) then (Inl (ExpectedNumber pos), pos)
             else (case stod A (substr e start (pos - start)) of
                     Inl x \<Rightarrow> (Inl (StodError x), pos)
                   | Inr v \<Rightarrow> (Inr v, pos))))"

subsection \<open>The modulo operation\<close>

text \<open>
  \<^verbatim>\<open>long long a = static_cast<long long>(val);
  long long b = static_cast<long long>(rhs);
  if (b == 0) throw runtime_error("Modulo by zero");
  val = static_cast<double>(a % b);\<close>
  Both casts come before the test. \<^verbatim>\<open>%\<close> on \<^verbatim>\<open>long long\<close> truncates towards zero
  (\<open>smod\<close>); \<^verbatim>\<open>LLONG_MIN % -1\<close> is undefined, since the quotient is not representable.
\<close>

definition LLONG_MIN :: "64 word" where
  "LLONG_MIN = - (2 ^ 63)"

definition modulo_ll :: "'v arith \<Rightarrow> 'v \<Rightarrow> 'v \<Rightarrow> failure + 'v" where
  "modulo_ll A val rhs =
     (case to_ll A val of
        None \<Rightarrow> Inl UndefinedBehaviour
      | Some a \<Rightarrow>
          (case to_ll A rhs of
             None \<Rightarrow> Inl UndefinedBehaviour
           | Some b \<Rightarrow>
               if b = 0 then Inl ModuloByZero
               else if a = LLONG_MIN \<and> b = - 1 then Inl UndefinedBehaviour
               else Inr (of_ll A (word_of_int (sint a smod sint b)))))"

subsection \<open>The grammar\<close>

text \<open>
  The six functions below are \<^verbatim>\<open>parseExpression\<close>, its \<^verbatim>\<open>while (true)\<close> loop,
  \<^verbatim>\<open>parseTerm\<close>, its loop, \<^verbatim>\<open>parsePower\<close> and \<^verbatim>\<open>parseFactor\<close>. A loop function takes the
  accumulated \<^verbatim>\<open>val\<close>. The branches are in the order of the source's \<^verbatim>\<open>if\<close> chains:
  a failed \<^verbatim>\<open>match\<close> still leaves the cursor after the spaces it skipped, and the next
  test starts there.

  \<^verbatim>\<open>parseExpression\<close>: \<^verbatim>\<open>double val = parseTerm(); while (true) {
    if (match('+')) val += parseTerm(); else if (match('-')) val -= parseTerm(); else break; }\<close>

  \<^verbatim>\<open>parseTerm\<close>: \<^verbatim>\<open>double val = parsePower(); while (true) {
    if (match('*')) { val *= parsePower(); }
    else if (match('/')) { double d = parsePower();
      if (d == 0) throw runtime_error("Division by zero"); val /= d; }
    else if (match('%')) { double rhs = parsePower(); (modulo, above) }
    else if (nextStartsFactor()) { val *= parsePower(); }
    else { break; } }\<close>

  \<^verbatim>\<open>parsePower\<close>: \<^verbatim>\<open>double base = parseFactor();
  if (matchStr("**") || match('^')) { double exp = parsePower(); base = pow(base, exp); }
  return base;\<close>

  \<^verbatim>\<open>parseFactor\<close>: \<^verbatim>\<open>skipSpaces();
  if (match('+')) return parseFactor();
  if (match('-')) return -parseFactor();
  if (match('(')) { double v = parseExpression();
    if (!match(')')) throw runtime_error("Missing ')'"); return v; }
  return parseNumber();\<close>
\<close>

function (sequential)
    parseExpression :: "'v arith \<Rightarrow> string \<Rightarrow> nat \<Rightarrow> (failure + 'v) \<times> nat"
and parseExpression_loop :: "'v arith \<Rightarrow> string \<Rightarrow> 'v \<Rightarrow> nat \<Rightarrow> (failure + 'v) \<times> nat"
and parseTerm :: "'v arith \<Rightarrow> string \<Rightarrow> nat \<Rightarrow> (failure + 'v) \<times> nat"
and parseTerm_loop :: "'v arith \<Rightarrow> string \<Rightarrow> 'v \<Rightarrow> nat \<Rightarrow> (failure + 'v) \<times> nat"
and parsePower :: "'v arith \<Rightarrow> string \<Rightarrow> nat \<Rightarrow> (failure + 'v) \<times> nat"
and parseFactor :: "'v arith \<Rightarrow> string \<Rightarrow> nat \<Rightarrow> (failure + 'v) \<times> nat"
where
  "parseExpression A e p =
     (case parseTerm A e p of
        (Inl x, p1) \<Rightarrow> (Inl x, p1)
      | (Inr val, p1) \<Rightarrow> parseExpression_loop A e val p1)"
| "parseExpression_loop A e val p =
     (case match e (CHR ''+'') p of
        (True, p1) \<Rightarrow>
          (case parseTerm A e p1 of
             (Inl x, p2) \<Rightarrow> (Inl x, p2)
           | (Inr t, p2) \<Rightarrow> parseExpression_loop A e (dadd A val t) p2)
      | (False, p1) \<Rightarrow>
          (case match e (CHR ''-'') p1 of
             (True, p2) \<Rightarrow>
               (case parseTerm A e p2 of
                  (Inl x, p3) \<Rightarrow> (Inl x, p3)
                | (Inr t, p3) \<Rightarrow> parseExpression_loop A e (dsub A val t) p3)
           | (False, p2) \<Rightarrow> (Inr val, p2)))"
| "parseTerm A e p =
     (case parsePower A e p of
        (Inl x, p1) \<Rightarrow> (Inl x, p1)
      | (Inr val, p1) \<Rightarrow> parseTerm_loop A e val p1)"
| "parseTerm_loop A e val p =
     (case match e (CHR ''*'') p of
        (True, p1) \<Rightarrow>
          (case parsePower A e p1 of
             (Inl x, p2) \<Rightarrow> (Inl x, p2)
           | (Inr r, p2) \<Rightarrow> parseTerm_loop A e (dmul A val r) p2)
      | (False, p1) \<Rightarrow>
          (case match e (CHR ''/'') p1 of
             (True, p2) \<Rightarrow>
               (case parsePower A e p2 of
                  (Inl x, p3) \<Rightarrow> (Inl x, p3)
                | (Inr d, p3) \<Rightarrow>
                    if is_zero A d then (Inl DivisionByZero, p3)
                    else parseTerm_loop A e (ddiv A val d) p3)
           | (False, p2) \<Rightarrow>
               (case match e (CHR ''%'') p2 of
                  (True, p3) \<Rightarrow>
                    (case parsePower A e p3 of
                       (Inl x, p4) \<Rightarrow> (Inl x, p4)
                     | (Inr rhs, p4) \<Rightarrow>
                         (case modulo_ll A val rhs of
                            Inl x \<Rightarrow> (Inl x, p4)
                          | Inr v \<Rightarrow> parseTerm_loop A e v p4))
                | (False, p3) \<Rightarrow>
                    (case nextStartsFactor e p3 of
                       (True, p4) \<Rightarrow>
                         (case parsePower A e p4 of
                            (Inl x, p5) \<Rightarrow> (Inl x, p5)
                          | (Inr r, p5) \<Rightarrow> parseTerm_loop A e (dmul A val r) p5)
                     | (False, p4) \<Rightarrow> (Inr val, p4)))))"
| "parsePower A e p =
     (case parseFactor A e p of
        (Inl x, p1) \<Rightarrow> (Inl x, p1)
      | (Inr base, p1) \<Rightarrow>
          (case matchStr e ''**'' p1 of
             (True, p2) \<Rightarrow>
               (case parsePower A e p2 of
                  (Inl x, p3) \<Rightarrow> (Inl x, p3)
                | (Inr ex, p3) \<Rightarrow> (Inr (dpow A base ex), p3))
           | (False, p2) \<Rightarrow>
               (case match e (CHR ''^'') p2 of
                  (True, p3) \<Rightarrow>
                    (case parsePower A e p3 of
                       (Inl x, p4) \<Rightarrow> (Inl x, p4)
                     | (Inr ex, p4) \<Rightarrow> (Inr (dpow A base ex), p4))
                | (False, p3) \<Rightarrow> (Inr base, p3))))"
| "parseFactor A e p0 =
     (let p = skipSpaces e p0 in
      case match e (CHR ''+'') p of
        (True, p1) \<Rightarrow> parseFactor A e p1
      | (False, p1) \<Rightarrow>
          (case match e (CHR ''-'') p1 of
             (True, p2) \<Rightarrow>
               (case parseFactor A e p2 of
                  (Inl x, p3) \<Rightarrow> (Inl x, p3)
                | (Inr v, p3) \<Rightarrow> (Inr (dneg A v), p3))
           | (False, p2) \<Rightarrow>
               (case match e (CHR ''('') p2 of
                  (True, p3) \<Rightarrow>
                    (case parseExpression A e p3 of
                       (Inl x, p4) \<Rightarrow> (Inl x, p4)
                     | (Inr v, p4) \<Rightarrow>
                         (case match e (CHR '')'') p4 of
                            (True, p5) \<Rightarrow> (Inr v, p5)
                          | (False, p5) \<Rightarrow> (Inl UnmatchedParenthesis, p5)))
                | (False, p3) \<Rightarrow> parseNumber A e p3)))"
  by pat_completeness auto

subsection \<open>The entry point\<close>

text \<open>
  \<^verbatim>\<open>double v = parseExpression(); skipSpaces();
  if (pos != expr.size()) throw runtime_error("Unexpected trailing input at pos " + to_string(pos));
  return v;\<close>
  A fresh parser starts with \<^verbatim>\<open>pos = 0\<close>.
\<close>

definition parse :: "'v arith \<Rightarrow> string \<Rightarrow> (failure + 'v) \<times> nat" where
  "parse A e =
     (case parseExpression A e 0 of
        (Inl x, p) \<Rightarrow> (Inl x, p)
      | (Inr v, p) \<Rightarrow>
          (let p' = skipSpaces e p
           in if p' \<noteq> length e then (Inl (TrailingInput p'), p') else (Inr v, p')))"

text \<open>
  What \<^verbatim>\<open>main\<close> observes of \<^verbatim>\<open>Parser p(line); p.parse()\<close>: the value, or the exception.
\<close>

definition evaluate :: "'v arith \<Rightarrow> string \<Rightarrow> failure + 'v" where
  "evaluate A e = fst (parse A e)"

section \<open>IEEE 754 binary64\<close>

text \<open>
  The arithmetic of \<^verbatim>\<open>double\<close> on the usual platforms: IEEE 754 binary64 with rounding
  to nearest, ties to even. A finite value is its sign bit and its magnitude (so that
  \<open>Finite True 0\<close> is the negative zero); the magnitudes that occur are the dyadic
  rationals a binary64 number can hold, because every operation rounds its result.
\<close>

datatype double = Finite bool real | Infinity bool | NaN

text \<open>\<open>ilog2 q\<close> is the exponent \<open>e\<close> with \<open>2 ^ e \<le> q < 2 ^ (e + 1)\<close>, for \<open>q > 0\<close>.\<close>

definition ilog2 :: "real \<Rightarrow> int" where
  "ilog2 q = (if 1 \<le> q then bitlen \<lfloor>q\<rfloor> - 1 else - bitlen (\<lceil>1 / q\<rceil> - 1))"

definition round_half_even :: "real \<Rightarrow> int" where
  "round_half_even x =
     (let f = \<lfloor>x\<rfloor>; d = x - of_int f
      in if d < 1 / 2 then f
         else if 1 / 2 < d then f + 1
         else if even f then f else f + 1)"

text \<open>
  The multiple of \<open>2 ^ (e - 52)\<close> nearest to \<open>q\<close>: the rounding of \<open>q\<close> to 53 significant bits
  when \<open>e = ilog2 q\<close>.
\<close>

definition round_at :: "int \<Rightarrow> real \<Rightarrow> real" where
  "round_at e q = of_int (round_half_even (q * 2 powi (52 - e))) * 2 powi (e - 52)"

text \<open>
  The binary64 number with sign \<open>s\<close> nearest to the magnitude \<open>q \<ge> 0\<close>. Below \<open>2 ^ - 1022\<close>
  the spacing stays \<open>2 ^ - 1074\<close> (subnormal numbers); a result that rounds up to
  \<open>2 ^ 1024\<close> is an infinity.
\<close>

definition mk_double :: "bool \<Rightarrow> real \<Rightarrow> double" where
  "mk_double s q =
     (if q = 0 then Finite s 0
      else
        (let e = max (ilog2 q) (- 1022);
             k = round_half_even (q * 2 powi (52 - e))
         in if 1023 < e \<or> (e = 1023 \<and> k = 2 ^ 53) then Infinity s
            else Finite s (of_int k * 2 powi (e - 52))))"

fun dval :: "double \<Rightarrow> real" where
  "dval (Finite s m) = (if s then - m else m)"
| "dval (Infinity s) = 0"
| "dval NaN = 0"

fun ieee_neg :: "double \<Rightarrow> double" where
  "ieee_neg (Finite s m) = Finite (\<not> s) m"
| "ieee_neg (Infinity s) = Infinity (\<not> s)"
| "ieee_neg NaN = NaN"

text \<open>An exact sum of zero is \<open>+0\<close>, except that \<open>-0 + -0 = -0\<close>.\<close>

fun ieee_add :: "double \<Rightarrow> double \<Rightarrow> double" where
  "ieee_add NaN y = NaN"
| "ieee_add x NaN = NaN"
| "ieee_add (Infinity s) (Infinity t) = (if s = t then Infinity s else NaN)"
| "ieee_add (Infinity s) (Finite t n) = Infinity s"
| "ieee_add (Finite s m) (Infinity t) = Infinity t"
| "ieee_add (Finite s m) (Finite t n) =
     (let q = dval (Finite s m) + dval (Finite t n)
      in if q = 0 then Finite (s \<and> t) 0 else mk_double (q < 0) \<bar>q\<bar>)"

definition ieee_sub :: "double \<Rightarrow> double \<Rightarrow> double" where
  "ieee_sub x y = ieee_add x (ieee_neg y)"

fun ieee_mul :: "double \<Rightarrow> double \<Rightarrow> double" where
  "ieee_mul NaN y = NaN"
| "ieee_mul x NaN = NaN"
| "ieee_mul (Infinity s) (Infinity t) = Infinity (s \<noteq> t)"
| "ieee_mul (Infinity s) (Finite t n) = (if n = 0 then NaN else Infinity (s \<noteq> t))"
| "ieee_mul (Finite s m) (Infinity t) = (if m = 0 then NaN else Infinity (s \<noteq> t))"
| "ieee_mul (Finite s m) (Finite t n) = mk_double (s \<noteq> t) (m * n)"

fun ieee_div :: "double \<Rightarrow> double \<Rightarrow> double" where
  "ieee_div NaN y = NaN"
| "ieee_div x NaN = NaN"
| "ieee_div (Infinity s) (Infinity t) = NaN"
| "ieee_div (Infinity s) (Finite t n) = Infinity (s \<noteq> t)"
| "ieee_div (Finite s m) (Infinity t) = Finite (s \<noteq> t) 0"
| "ieee_div (Finite s m) (Finite t n) =
     (if n = 0 then (if m = 0 then NaN else Infinity (s \<noteq> t))
      else mk_double (s \<noteq> t) (m / n))"

text \<open>\<^verbatim>\<open>d == 0\<close>: true of both zeros and of nothing else (no tolerance; false of a NaN).\<close>

fun ieee_is_zero :: "double \<Rightarrow> bool" where
  "ieee_is_zero (Finite s m) = (m = 0)"
| "ieee_is_zero (Infinity s) = False"
| "ieee_is_zero NaN = False"

text \<open>
  \<^verbatim>\<open>static_cast<long long>(x)\<close> discards the fractional part; the behaviour is undefined
  when the truncated value is not a \<^verbatim>\<open>long long\<close> (C++ [conv.fpint]).
\<close>

fun ieee_to_ll :: "double \<Rightarrow> 64 word option" where
  "ieee_to_ll (Finite s m) =
     (let v = (if s then - \<lfloor>m\<rfloor> else \<lfloor>m\<rfloor>)
      in if - (2 ^ 63) \<le> v \<and> v < 2 ^ 63 then Some (word_of_int v) else None)"
| "ieee_to_ll (Infinity s) = None"
| "ieee_to_ll NaN = None"

definition ieee_of_ll :: "64 word \<Rightarrow> double" where
  "ieee_of_ll w = mk_double (sint w < 0) (of_int \<bar>sint w\<bar>)"

text \<open>
  \<^verbatim>\<open>std::pow\<close>, with the special cases of C Annex F (F.10.4.4). Where the exponent is an
  integer the exact power is rounded; otherwise, for a positive base, the real power is.
  (A C library need not round \<^verbatim>\<open>pow\<close> correctly where the power is not representable;
  where it is representable, as in every example below, the result is that power.)
\<close>

definition is_int :: "real \<Rightarrow> bool" where
  "is_int n = (n = of_int \<lfloor>n\<rfloor>)"

definition odd_int :: "real \<Rightarrow> bool" where
  "odd_int n = (is_int n \<and> odd \<lfloor>n\<rfloor>)"

definition ieee_pow :: "double \<Rightarrow> double \<Rightarrow> double" where
  "ieee_pow x y =
     (if ieee_is_zero y then Finite False 1
      else if x = Finite False 1 then Finite False 1
      else if x = NaN \<or> y = NaN then NaN
      else
        (case y of
           Infinity t \<Rightarrow>
             (case x of
                Finite s m \<Rightarrow>
                  if m = 1 then Finite False 1
                  else if (m < 1) = t then Infinity False else Finite False 0
              | Infinity s \<Rightarrow> if t then Finite False 0 else Infinity False
              | NaN \<Rightarrow> NaN)
         | Finite t n \<Rightarrow>
             (case x of
                Infinity s \<Rightarrow>
                  if t then Finite (s \<and> odd_int n) 0 else Infinity (s \<and> odd_int n)
              | Finite s m \<Rightarrow>
                  if m = 0 then
                    (if t then Infinity (s \<and> odd_int n) else Finite (s \<and> odd_int n) 0)
                  else if is_int n then
                    mk_double (s \<and> odd \<lfloor>n\<rfloor>) ((if t then 1 / m else m) ^ nat \<lfloor>n\<rfloor>)
                  else if s then NaN
                  else mk_double False (m powr (if t then - n else n))
              | NaN \<Rightarrow> NaN)
         | NaN \<Rightarrow> NaN))"

text \<open>
  \<^verbatim>\<open>std::stod\<close> on the text \<^verbatim>\<open>parseNumber\<close> hands over. That text starts at a non-space
  character and holds only decimal digits, at most one \<^verbatim>\<open>.\<close> and an exponent suffix, so
  of \<^verbatim>\<open>strtod\<close>'s syntax only the decimal form is modelled: digits, an optional point
  with digits, and an exponent that counts only when a digit follows it. No digit in
  the mantissa means no conversion (\<^verbatim>\<open>invalid_argument\<close>). The value is the decimal
  number rounded to nearest; \<^verbatim>\<open>strtod\<close> reports \<^verbatim>\<open>ERANGE\<close>, and \<^verbatim>\<open>stod\<close> throws
  \<^verbatim>\<open>out_of_range\<close>, when the result overflows, or is inexact and below the normal range.
\<close>

fun digits_value :: "nat \<Rightarrow> string \<Rightarrow> nat" where
  "digits_value acc [] = acc"
| "digits_value acc (c # cs) = digits_value (10 * acc + (of_char c - 48)) cs"

definition exponent_digits :: "int \<Rightarrow> string \<Rightarrow> int" where
  "exponent_digits sign u =
     (let ds = takeWhile isdigit u
      in if ds = [] then 0 else sign * int (digits_value 0 ds))"

fun stod_exponent :: "string \<Rightarrow> int" where
  "stod_exponent [] = 0"
| "stod_exponent [c] = 0"
| "stod_exponent (c # d # u) =
     (if c = CHR ''e'' \<or> c = CHR ''E'' then
        (if d = CHR ''+'' then exponent_digits 1 u
         else if d = CHR ''-'' then exponent_digits (- 1) u
         else exponent_digits 1 (d # u))
      else 0)"

definition underflows :: "real \<Rightarrow> bool" where
  "underflows q =
     (if ilog2 q < - 1022
      then round_at (ilog2 q) q < 2 powi (- 1022) \<and> round_at (- 1022) q \<noteq> q
      else False)"

definition ieee_stod :: "string \<Rightarrow> stod_error + double" where
  "ieee_stod s =
     (let ip = takeWhile isdigit s;
          r1 = dropWhile isdigit s;
          point = (r1 \<noteq> [] \<and> hd r1 = CHR ''.'');
          fp = (if point then takeWhile isdigit (tl r1) else []);
          r2 = (if point then dropWhile isdigit (tl r1) else r1)
      in if ip = [] \<and> fp = [] then Inl InvalidArgument
         else
           (let q = of_nat (digits_value 0 (ip @ fp)) * 10 powi (stod_exponent r2 - int (length fp))
            in if q = 0 then Inr (Finite False 0)
               else if underflows q then Inl OutOfRange
               else (case mk_double False q of
                       Infinity s \<Rightarrow> Inl OutOfRange
                     | d \<Rightarrow> Inr d)))"

definition ieee :: "double arith" where
  "ieee =
     \<lparr>stod = ieee_stod, dneg = ieee_neg, dadd = ieee_add, dsub = ieee_sub, dmul = ieee_mul,
      ddiv = ieee_div, dpow = ieee_pow, is_zero = ieee_is_zero, to_ll = ieee_to_ll,
      of_ll = ieee_of_ll\<rparr>"

section \<open>Termination of the parser\<close>

text \<open>
  The recursion is not structural: a loop continues from the cursor that the call before
  it returned. The functions terminate because no call moves the cursor back, every
  operator and every successful \<open>parsePower\<close> moves it forward, and it never passes the
  end of the expression. These facts are first proved for the arguments on which the
  functions are known to be defined, then totality follows.
\<close>

abbreviation parser_dom where
  "parser_dom \<equiv> parseExpression_parseExpression_loop_parseTerm_parseTerm_loop_parsePower_parseFactor_dom"

lemma skipSpaces_ge: "p \<le> skipSpaces e p"
proof (induction e p rule: skipSpaces.induct)
  case (1 e p)
  show ?case
  proof (cases "p < length e \<and> isspace (e ! p)")
    case True
    with 1 have "Suc p \<le> skipSpaces e (Suc p)" by simp
    with True show ?thesis by (subst skipSpaces.simps) simp
  next
    case False
    then show ?thesis by (subst skipSpaces.simps) auto
  qed
qed

lemma skipSpaces_le: "p \<le> length e \<Longrightarrow> skipSpaces e p \<le> length e"
proof (induction e p rule: skipSpaces.induct)
  case (1 e p)
  show ?case
  proof (cases "p < length e \<and> isspace (e ! p)")
    case True
    with 1 have "skipSpaces e (Suc p) \<le> length e" by simp
    with True show ?thesis by (subst skipSpaces.simps) simp
  next
    case False
    with 1 show ?thesis by (subst skipSpaces.simps) auto
  qed
qed

lemma match_mono: "match e c p = (b, p') \<Longrightarrow> p \<le> p'"
  using skipSpaces_ge [of p e] by (auto simp: match_def Let_def split: if_splits)

lemma match_True: "match e c p = (True, p') \<Longrightarrow> p < p' \<and> p' \<le> length e"
  using skipSpaces_ge [of p e] by (auto simp: match_def Let_def split: if_splits)

lemma match_bound: "match e c p = (b, p') \<Longrightarrow> p \<le> length e \<Longrightarrow> p' \<le> length e"
  using skipSpaces_le [of p e] by (auto simp: match_def Let_def split: if_splits)

lemma matchStr_loop_ge: "i \<le> matchStr_loop e s start i"
proof (induction e s start i rule: matchStr_loop.induct)
  case (1 e s start i)
  show ?case
  proof (cases "i < length s \<and> start + i < length e \<and> e ! (start + i) = s ! i")
    case True
    with 1 have "Suc i \<le> matchStr_loop e s start (Suc i)" by simp
    with True show ?thesis by (subst matchStr_loop.simps) simp
  next
    case False
    then show ?thesis by (subst matchStr_loop.simps) auto
  qed
qed

lemma matchStr_loop_le: "start + i \<le> length e \<Longrightarrow> start + matchStr_loop e s start i \<le> length e"
proof (induction e s start i rule: matchStr_loop.induct)
  case (1 e s start i)
  show ?case
  proof (cases "i < length s \<and> start + i < length e \<and> e ! (start + i) = s ! i")
    case True
    with 1 have "start + matchStr_loop e s start (Suc i) \<le> length e" by simp
    with True show ?thesis by (subst matchStr_loop.simps) simp
  next
    case False
    with 1 show ?thesis by (subst matchStr_loop.simps) auto
  qed
qed

lemma matchStr_loop_0: "0 < matchStr_loop e s start 0 \<Longrightarrow> start + matchStr_loop e s start 0 \<le> length e"
proof -
  assume a: "0 < matchStr_loop e s start 0"
  have "start < length e"
  proof (rule ccontr)
    assume "\<not> start < length e"
    then have "matchStr_loop e s start 0 = 0" by (subst matchStr_loop.simps) simp
    with a show False by simp
  qed
  then show ?thesis using matchStr_loop_le [of start 0 e s] by simp
qed

lemma matchStr_mono: "matchStr e s p = (b, p') \<Longrightarrow> p \<le> p'"
  using skipSpaces_ge [of p e] by (auto simp: matchStr_def Let_def split: if_splits)

lemma matchStr_True:
  assumes "matchStr e s p = (True, p')" and "s \<noteq> []"
  shows "p < p' \<and> p' \<le> length e"
proof -
  let ?start = "skipSpaces e p"
  let ?i = "matchStr_loop e s ?start 0"
  from assms have i: "\<not> ?i < length s" and p': "p' = ?start + ?i"
    by (auto simp: matchStr_def Let_def split: if_splits)
  from i assms(2) have "0 < ?i" by (cases s) auto
  then show ?thesis using matchStr_loop_0 [of e s ?start] skipSpaces_ge [of p e] p' by simp
qed

lemma matchStr_bound: "matchStr e s p = (b, p') \<Longrightarrow> p \<le> length e \<Longrightarrow> p' \<le> length e"
  using skipSpaces_le [of p e] matchStr_loop_le [of "skipSpaces e p" 0 e s]
  by (auto simp: matchStr_def Let_def split: if_splits)

lemma nextStartsFactor_mono: "nextStartsFactor e p = (b, p') \<Longrightarrow> p \<le> p'"
  using skipSpaces_ge [of p e] by (auto simp: nextStartsFactor_def peek_def Let_def)

lemma isdigit_NUL: "\<not> isdigit (CHR 0x00)"
  by (simp add: isdigit_def)

lemma nextStartsFactor_True: "nextStartsFactor e p = (True, p') \<Longrightarrow> p' < length e"
  by (auto simp: nextStartsFactor_def peek_def Let_def isdigit_NUL split: if_splits)

lemma nextStartsFactor_bound: "nextStartsFactor e p = (b, p') \<Longrightarrow> p \<le> length e \<Longrightarrow> p' \<le> length e"
  using skipSpaces_le [of p e] by (auto simp: nextStartsFactor_def peek_def Let_def)

lemma scanMantissa_ge: "scanMantissa e sd sdot p = (sd', sdot', p') \<Longrightarrow> p \<le> p'"
proof (induction e sd sdot p rule: scanMantissa.induct)
  case (1 e seenDigit seenDot p)
  from "1.prems" show ?case
    by (subst (asm) scanMantissa.simps) (auto split: if_splits dest!: "1.IH" [rotated -1])
qed

lemma scanMantissa_le: "scanMantissa e sd sdot p = (sd', sdot', p') \<Longrightarrow> p \<le> length e \<Longrightarrow> p' \<le> length e"
proof (induction e sd sdot p rule: scanMantissa.induct)
  case (1 e seenDigit seenDot p)
  from "1.prems" show ?case
    by (subst (asm) scanMantissa.simps) (auto split: if_splits intro: "1.IH")
qed

lemma scanDigits_ge: "scanDigits e b p = (b', p') \<Longrightarrow> p \<le> p'"
proof (induction e b p rule: scanDigits.induct)
  case (1 e expDigits p)
  from "1.prems" show ?case
    by (subst (asm) scanDigits.simps) (auto split: if_splits dest!: "1.IH" [rotated -1])
qed

lemma scanDigits_le: "scanDigits e b p = (b', p') \<Longrightarrow> p \<le> length e \<Longrightarrow> p' \<le> length e"
proof (induction e b p rule: scanDigits.induct)
  case (1 e expDigits p)
  from "1.prems" show ?case
    by (subst (asm) scanDigits.simps) (auto split: if_splits intro: "1.IH")
qed

lemma scanExponent_ge: "p \<le> scanExponent e p"
  by (auto simp: scanExponent_def Let_def split: prod.splits dest!: scanDigits_ge)

lemma scanExponent_le: "p \<le> length e \<Longrightarrow> scanExponent e p \<le> length e"
  by (auto simp: scanExponent_def Let_def split: prod.splits dest!: scanDigits_le)


lemma scanMantissa_seenDigit:
  "scanMantissa e sd sdot p = (sd', sdot', p') \<Longrightarrow> sd' \<Longrightarrow> sd \<or> p < p'"
proof (induction e sd sdot p rule: scanMantissa.induct)
  case (1 e seenDigit seenDot p)
  from "1.prems" show ?case
    by (subst (asm) scanMantissa.simps)
       (auto split: if_splits dest: "1.IH"(2) [rotated -2] scanMantissa_ge)
qed

lemma parseNumber_mono: "parseNumber A e p = (r, p') \<Longrightarrow> p \<le> p'"
  using skipSpaces_ge [of p e]
  by (auto simp: parseNumber_def Let_def split: prod.splits if_splits sum.splits
           dest!: scanMantissa_ge intro: order_trans [OF _ scanExponent_ge] order_trans)

lemma parseNumber_strict:
  assumes "parseNumber A e p = (Inr v, p')"
  shows "p < p'"
proof -
  let ?start = "skipSpaces e p"
  obtain sd sdot p1 where sm: "scanMantissa e False False ?start = (sd, sdot, p1)"
    by (cases "scanMantissa e False False ?start") auto
  from assms sm have p': "p' = scanExponent e p1" and ok: "sd \<or> ?start < p'"
    by (auto simp: parseNumber_def Let_def split: if_splits sum.splits)
  have "?start < p'"
  proof (cases sd)
    case True
    with sm have "?start < p1" using scanMantissa_seenDigit by blast
    with p' show ?thesis using scanExponent_ge [of p1 e] by simp
  next
    case False
    with ok show ?thesis by simp
  qed
  with skipSpaces_ge [of p e] show ?thesis by simp
qed

lemma parseNumber_bound: "parseNumber A e p = (r, p') \<Longrightarrow> p \<le> length e \<Longrightarrow> p' \<le> length e"
  using skipSpaces_le [of p e]
  by (auto simp: parseNumber_def Let_def split: prod.splits if_splits sum.splits
           dest!: scanMantissa_le intro: scanExponent_le)

lemma parseExpression_pcases:
  assumes "parser_dom (Inl (Inl (A, e, p)))"
      and "parseExpression A e p = (r, p')"
  obtains
    (term_err) x where "parseTerm A e p = (Inl x, p')" "r = Inl x"
  | (loop) val p1 where "parseTerm A e p = (Inr val, p1)"
      "parseExpression_loop A e val p1 = (r, p')"
  using assms
  by (auto simp: parseExpression.psimps split: prod.splits sum.splits)

lemma parseExpression_loop_pcases:
  assumes "parser_dom (Inl (Inr (Inl (A, e, val, p))))"
      and "parseExpression_loop A e val p = (r, p')"
  obtains
    (plus_err) p1 x where "match e (CHR ''+'') p = (True, p1)"
      "parseTerm A e p1 = (Inl x, p')" "r = Inl x"
  | (plus) p1 t p2 where "match e (CHR ''+'') p = (True, p1)"
      "parseTerm A e p1 = (Inr t, p2)" "parseExpression_loop A e (dadd A val t) p2 = (r, p')"
  | (minus_err) p1 p2 x where "match e (CHR ''+'') p = (False, p1)"
      "match e (CHR ''-'') p1 = (True, p2)" "parseTerm A e p2 = (Inl x, p')" "r = Inl x"
  | (minus) p1 p2 t p3 where "match e (CHR ''+'') p = (False, p1)"
      "match e (CHR ''-'') p1 = (True, p2)" "parseTerm A e p2 = (Inr t, p3)"
      "parseExpression_loop A e (dsub A val t) p3 = (r, p')"
  | (break) p1 where "match e (CHR ''+'') p = (False, p1)"
      "match e (CHR ''-'') p1 = (False, p')" "r = Inr val"
  using assms
  by (auto simp: parseExpression_loop.psimps split: prod.splits sum.splits bool.splits)

lemma parseTerm_pcases:
  assumes "parser_dom (Inl (Inr (Inr (A, e, p))))"
      and "parseTerm A e p = (r, p')"
  obtains
    (power_err) x where "parsePower A e p = (Inl x, p')" "r = Inl x"
  | (loop) val p1 where "parsePower A e p = (Inr val, p1)"
      "parseTerm_loop A e val p1 = (r, p')"
  using assms
  by (auto simp: parseTerm.psimps split: prod.splits sum.splits)

lemma parseTerm_loop_pcases:
  assumes "parser_dom (Inr (Inl (A, e, val, p)))"
      and "parseTerm_loop A e val p = (r, p')"
  obtains
    (mul_err) p1 x where "match e (CHR ''*'') p = (True, p1)"
      "parsePower A e p1 = (Inl x, p')" "r = Inl x"
  | (mul) p1 rhs p2 where "match e (CHR ''*'') p = (True, p1)"
      "parsePower A e p1 = (Inr rhs, p2)" "parseTerm_loop A e (dmul A val rhs) p2 = (r, p')"
  | (div_err) p1 p2 x where "match e (CHR ''*'') p = (False, p1)"
      "match e (CHR ''/'') p1 = (True, p2)" "parsePower A e p2 = (Inl x, p')" "r = Inl x"
  | (div_zero) p1 p2 d where "match e (CHR ''*'') p = (False, p1)"
      "match e (CHR ''/'') p1 = (True, p2)" "parsePower A e p2 = (Inr d, p')"
      "is_zero A d" "r = Inl DivisionByZero"
  | (div) p1 p2 d p3 where "match e (CHR ''*'') p = (False, p1)"
      "match e (CHR ''/'') p1 = (True, p2)" "parsePower A e p2 = (Inr d, p3)"
      "\<not> is_zero A d" "parseTerm_loop A e (ddiv A val d) p3 = (r, p')"
  | (mod_err) p1 p2 p3 x where "match e (CHR ''*'') p = (False, p1)"
      "match e (CHR ''/'') p1 = (False, p2)" "match e (CHR ''%'') p2 = (True, p3)"
      "parsePower A e p3 = (Inl x, p')" "r = Inl x"
  | (mod_fail) p1 p2 p3 rhs x where "match e (CHR ''*'') p = (False, p1)"
      "match e (CHR ''/'') p1 = (False, p2)" "match e (CHR ''%'') p2 = (True, p3)"
      "parsePower A e p3 = (Inr rhs, p')" "modulo_ll A val rhs = Inl x" "r = Inl x"
  | (mod) p1 p2 p3 rhs p4 v where "match e (CHR ''*'') p = (False, p1)"
      "match e (CHR ''/'') p1 = (False, p2)" "match e (CHR ''%'') p2 = (True, p3)"
      "parsePower A e p3 = (Inr rhs, p4)" "modulo_ll A val rhs = Inr v"
      "parseTerm_loop A e v p4 = (r, p')"
  | (implicit_err) p1 p2 p3 p4 x where "match e (CHR ''*'') p = (False, p1)"
      "match e (CHR ''/'') p1 = (False, p2)" "match e (CHR ''%'') p2 = (False, p3)"
      "nextStartsFactor e p3 = (True, p4)" "parsePower A e p4 = (Inl x, p')" "r = Inl x"
  | (implicit) p1 p2 p3 p4 rhs p5 where "match e (CHR ''*'') p = (False, p1)"
      "match e (CHR ''/'') p1 = (False, p2)" "match e (CHR ''%'') p2 = (False, p3)"
      "nextStartsFactor e p3 = (True, p4)" "parsePower A e p4 = (Inr rhs, p5)"
      "parseTerm_loop A e (dmul A val rhs) p5 = (r, p')"
  | (break) p1 p2 p3 where "match e (CHR ''*'') p = (False, p1)"
      "match e (CHR ''/'') p1 = (False, p2)" "match e (CHR ''%'') p2 = (False, p3)"
      "nextStartsFactor e p3 = (False, p')" "r = Inr val"
  using assms
  by (auto simp: parseTerm_loop.psimps split: prod.splits sum.splits bool.splits if_splits)

lemma parsePower_pcases:
  assumes "parser_dom (Inr (Inr (Inl (A, e, p))))"
      and "parsePower A e p = (r, p')"
  obtains
    (factor_err) x where "parseFactor A e p = (Inl x, p')" "r = Inl x"
  | (starstar) base p1 p2 r2 where "parseFactor A e p = (Inr base, p1)"
      "matchStr e ''**'' p1 = (True, p2)" "parsePower A e p2 = (r2, p')"
      "r = (case r2 of Inl x \<Rightarrow> Inl x | Inr ex \<Rightarrow> Inr (dpow A base ex))"
  | (caret) base p1 p2 p3 r2 where "parseFactor A e p = (Inr base, p1)"
      "matchStr e ''**'' p1 = (False, p2)" "match e (CHR ''^'') p2 = (True, p3)"
      "parsePower A e p3 = (r2, p')"
      "r = (case r2 of Inl x \<Rightarrow> Inl x | Inr ex \<Rightarrow> Inr (dpow A base ex))"
  | (no_exponent) base p1 p2 where "parseFactor A e p = (Inr base, p1)"
      "matchStr e ''**'' p1 = (False, p2)" "match e (CHR ''^'') p2 = (False, p')"
      "r = Inr base"
  using assms
  by (auto simp: parsePower.psimps split: prod.splits sum.splits bool.splits)

lemma parseFactor_pcases:
  assumes "parser_dom (Inr (Inr (Inr (A, e, p))))"
      and "parseFactor A e p = (r, p')"
  obtains
    (unary_plus) p1 where "match e (CHR ''+'') (skipSpaces e p) = (True, p1)"
      "parseFactor A e p1 = (r, p')"
  | (unary_minus) p1 p2 r2 where "match e (CHR ''+'') (skipSpaces e p) = (False, p1)"
      "match e (CHR ''-'') p1 = (True, p2)" "parseFactor A e p2 = (r2, p')"
      "r = (case r2 of Inl x \<Rightarrow> Inl x | Inr v \<Rightarrow> Inr (dneg A v))"
  | (paren_err) p1 p2 p3 x where "match e (CHR ''+'') (skipSpaces e p) = (False, p1)"
      "match e (CHR ''-'') p1 = (False, p2)" "match e (CHR ''('') p2 = (True, p3)"
      "parseExpression A e p3 = (Inl x, p')" "r = Inl x"
  | (paren) p1 p2 p3 v p4 b where "match e (CHR ''+'') (skipSpaces e p) = (False, p1)"
      "match e (CHR ''-'') p1 = (False, p2)" "match e (CHR ''('') p2 = (True, p3)"
      "parseExpression A e p3 = (Inr v, p4)" "match e (CHR '')'') p4 = (b, p')"
      "r = (if b then Inr v else Inl UnmatchedParenthesis)"
  | (number) p1 p2 p3 where "match e (CHR ''+'') (skipSpaces e p) = (False, p1)"
      "match e (CHR ''-'') p1 = (False, p2)" "match e (CHR ''('') p2 = (False, p3)"
      "parseNumber A e p3 = (r, p')"
  using assms
  by (auto simp: parseFactor.psimps Let_def split: prod.splits sum.splits bool.splits)

definition progress :: "bool \<Rightarrow> string \<Rightarrow> nat \<Rightarrow> ('a + 'b) \<times> nat \<Rightarrow> bool" where
  "progress strict e p res =
     (p \<le> snd res \<and> (p \<le> length e \<longrightarrow> snd res \<le> length e) \<and>
      (strict \<and> \<not> isl (fst res) \<longrightarrow> p < snd res))"

lemma progressI:
  assumes "\<And>r p'. res = (r, p') \<Longrightarrow> p \<le> p' \<and> (p \<le> length e \<longrightarrow> p' \<le> length e) \<and> (strict \<and> \<not> isl r \<longrightarrow> p < p')"
  shows "progress strict e p res"
  using assms by (cases res) (auto simp: progress_def)

lemma progressD:
  assumes "progress strict e p res" and "res = (r, p')"
  shows "p \<le> p'" and "p \<le> length e \<Longrightarrow> p' \<le> length e" and "strict \<Longrightarrow> \<not> isl r \<Longrightarrow> p < p'"
  using assms by (auto simp: progress_def)


lemma progress_dom:
  "parser_dom (Inl (Inl (A, e, p))) \<Longrightarrow> progress True e p (parseExpression A e p)"
  "parser_dom (Inl (Inr (Inl (A, e, val, p)))) \<Longrightarrow> progress False e p (parseExpression_loop A e val p)"
  "parser_dom (Inl (Inr (Inr (A, e, p)))) \<Longrightarrow> progress True e p (parseTerm A e p)"
  "parser_dom (Inr (Inl (A, e, val, p))) \<Longrightarrow> progress False e p (parseTerm_loop A e val p)"
  "parser_dom (Inr (Inr (Inl (A, e, p)))) \<Longrightarrow> progress True e p (parsePower A e p)"
  "parser_dom (Inr (Inr (Inr (A, e, p)))) \<Longrightarrow> progress True e p (parseFactor A e p)"
proof (induct rule: parseExpression_parseExpression_loop_parseTerm_parseTerm_loop_parsePower_parseFactor.pinduct)
  case (1 A e p)
  show ?case
  proof (rule progressI)
    fix r p' assume res: "parseExpression A e p = (r, p')"
    from "1.hyps"(1) res
    show "p \<le> p' \<and> (p \<le> length e \<longrightarrow> p' \<le> length e) \<and> (True \<and> \<not> isl r \<longrightarrow> p < p')"
    proof (cases rule: parseExpression_pcases)
      case (term_err x)
      with progressD [OF "1.hyps"(2) term_err(1)] show ?thesis by simp
    next
      case (loop val p1)
      note a = progressD [OF "1.hyps"(2) loop(1)]
      note b = progressD [OF "1.hyps"(3) [OF loop(1) [symmetric] refl] loop(2)]
      from a b show ?thesis by auto
    qed
  qed
next
  case (2 A e val p)
  show ?case
  proof (rule progressI)
    fix r p' assume res: "parseExpression_loop A e val p = (r, p')"
    from "2.hyps"(1) res
    show "p \<le> p' \<and> (p \<le> length e \<longrightarrow> p' \<le> length e) \<and> (False \<and> \<not> isl r \<longrightarrow> p < p')"
    proof (cases rule: parseExpression_loop_pcases)
      case (plus_err p1 x)
      note m = match_True [OF plus_err(1)]
      note a = progressD [OF "2.hyps"(2) [OF plus_err(1) [symmetric] refl] plus_err(2)]
      from m a show ?thesis by auto
    next
      case (plus p1 t p2)
      note m = match_True [OF plus(1)]
      note a = progressD [OF "2.hyps"(2) [OF plus(1) [symmetric] refl] plus(2)]
      note b = progressD [OF "2.hyps"(3) [OF plus(1) [symmetric] refl plus(2) [symmetric] refl] plus(3)]
      from m a b show ?thesis by auto
    next
      case (minus_err p1 p2 x)
      note m1 = match_mono [OF minus_err(1)]
      note m = match_True [OF minus_err(2)]
      note a = progressD [OF "2.hyps"(4) [OF minus_err(1) [symmetric] refl minus_err(2) [symmetric] refl] minus_err(3)]
      from m1 m a show ?thesis by auto
    next
      case (minus p1 p2 t p3)
      note m1 = match_mono [OF minus(1)]
      note m = match_True [OF minus(2)]
      note a = progressD [OF "2.hyps"(4) [OF minus(1) [symmetric] refl minus(2) [symmetric] refl] minus(3)]
      note b = progressD [OF "2.hyps"(5) [OF minus(1) [symmetric] refl minus(2) [symmetric] refl
                 minus(3) [symmetric] refl] minus(4)]
      from m1 m a b show ?thesis by auto
    next
      case (break p1)
      from match_mono [OF break(1)] match_mono [OF break(2)]
           match_bound [OF break(1)] match_bound [OF break(2)]
      show ?thesis by auto
    qed
  qed
next
  case (3 A e p)
  show ?case
  proof (rule progressI)
    fix r p' assume res: "parseTerm A e p = (r, p')"
    from "3.hyps"(1) res
    show "p \<le> p' \<and> (p \<le> length e \<longrightarrow> p' \<le> length e) \<and> (True \<and> \<not> isl r \<longrightarrow> p < p')"
    proof (cases rule: parseTerm_pcases)
      case (power_err x)
      with progressD [OF "3.hyps"(2) power_err(1)] show ?thesis by simp
    next
      case (loop val p1)
      note a = progressD [OF "3.hyps"(2) loop(1)]
      note b = progressD [OF "3.hyps"(3) [OF loop(1) [symmetric] refl] loop(2)]
      from a b show ?thesis by auto
    qed
  qed
next
  case (4 A e val p)
  note IH = "4.hyps"(2-)
  show ?case
  proof (rule progressI)
    fix r p' assume res: "parseTerm_loop A e val p = (r, p')"
    from "4.hyps"(1) res
    show "p \<le> p' \<and> (p \<le> length e \<longrightarrow> p' \<le> length e) \<and> (False \<and> \<not> isl r \<longrightarrow> p < p')"
    proof (cases rule: parseTerm_loop_pcases)
      case (mul_err p1 x)
      note m = match_True [OF mul_err(1)]
      note a = progressD [OF IH(1) [OF mul_err(1) [symmetric] refl] mul_err(2)]
      from m a show ?thesis by auto
    next
      case (mul p1 rhs p2)
      note m = match_True [OF mul(1)]
      note a = progressD [OF IH(1) [OF mul(1) [symmetric] refl] mul(2)]
      note b = progressD [OF IH(2) [OF mul(1) [symmetric] refl mul(2) [symmetric] refl] mul(3)]
      from m a b show ?thesis by auto
    next
      case (div_err p1 p2 x)
      note m1 = match_mono [OF div_err(1)]
      note m = match_True [OF div_err(2)]
      note a = progressD [OF IH(3) [OF div_err(1) [symmetric] refl div_err(2) [symmetric] refl] div_err(3)]
      from m1 m a show ?thesis by auto
    next
      case (div_zero p1 p2 d)
      note m1 = match_mono [OF div_zero(1)]
      note m = match_True [OF div_zero(2)]
      note a = progressD [OF IH(3) [OF div_zero(1) [symmetric] refl div_zero(2) [symmetric] refl] div_zero(3)]
      from m1 m a show ?thesis by auto
    next
      case (div p1 p2 d p3)
      note m1 = match_mono [OF div(1)]
      note m = match_True [OF div(2)]
      note a = progressD [OF IH(3) [OF div(1) [symmetric] refl div(2) [symmetric] refl] div(3)]
      note b = progressD [OF IH(4) [OF div(1) [symmetric] refl div(2) [symmetric] refl
                 div(3) [symmetric] refl div(4)] div(5)]
      from m1 m a b show ?thesis by auto
    next
      case (mod_err p1 p2 p3 x)
      note m1 = match_mono [OF mod_err(1)] match_mono [OF mod_err(2)]
      note m = match_True [OF mod_err(3)]
      note a = progressD [OF IH(5) [OF mod_err(1) [symmetric] refl mod_err(2) [symmetric] refl
                 mod_err(3) [symmetric] refl] mod_err(4)]
      from m1 m a show ?thesis by auto
    next
      case (mod_fail p1 p2 p3 rhs x)
      note m1 = match_mono [OF mod_fail(1)] match_mono [OF mod_fail(2)]
      note m = match_True [OF mod_fail(3)]
      note a = progressD [OF IH(5) [OF mod_fail(1) [symmetric] refl mod_fail(2) [symmetric] refl
                 mod_fail(3) [symmetric] refl] mod_fail(4)]
      from m1 m a show ?thesis by auto
    next
      case (mod p1 p2 p3 rhs p4 v)
      note m1 = match_mono [OF mod(1)] match_mono [OF mod(2)]
      note m = match_True [OF mod(3)]
      note a = progressD [OF IH(5) [OF mod(1) [symmetric] refl mod(2) [symmetric] refl
                 mod(3) [symmetric] refl] mod(4)]
      note b = progressD [OF IH(6) [OF mod(1) [symmetric] refl mod(2) [symmetric] refl
                 mod(3) [symmetric] refl mod(4) [symmetric] refl mod(5)] mod(6)]
      from m1 m a b show ?thesis by auto
    next
      case (implicit_err p1 p2 p3 p4 x)
      note m1 = match_mono [OF implicit_err(1)] match_mono [OF implicit_err(2)]
                match_mono [OF implicit_err(3)] nextStartsFactor_mono [OF implicit_err(4)]
      note m = nextStartsFactor_True [OF implicit_err(4)]
      note a = progressD [OF IH(7) [OF implicit_err(1) [symmetric] refl implicit_err(2) [symmetric] refl
                 implicit_err(3) [symmetric] refl implicit_err(4) [symmetric] refl] implicit_err(5)]
      from m1 m a show ?thesis by auto
    next
      case (implicit p1 p2 p3 p4 rhs p5)
      note m1 = match_mono [OF implicit(1)] match_mono [OF implicit(2)]
                match_mono [OF implicit(3)] nextStartsFactor_mono [OF implicit(4)]
      note m = nextStartsFactor_True [OF implicit(4)]
      note a = progressD [OF IH(7) [OF implicit(1) [symmetric] refl implicit(2) [symmetric] refl
                 implicit(3) [symmetric] refl implicit(4) [symmetric] refl] implicit(5)]
      note b = progressD [OF IH(8) [OF implicit(1) [symmetric] refl implicit(2) [symmetric] refl
                 implicit(3) [symmetric] refl implicit(4) [symmetric] refl implicit(5) [symmetric] refl]
                 implicit(6)]
      from m1 m a b show ?thesis by auto
    next
      case (break p1 p2 p3)
      from match_mono [OF break(1)] match_mono [OF break(2)] match_mono [OF break(3)]
           nextStartsFactor_mono [OF break(4)]
           match_bound [OF break(1)] match_bound [OF break(2)] match_bound [OF break(3)]
           nextStartsFactor_bound [OF break(4)]
      show ?thesis by auto
    qed
  qed
next
  case (5 A e p)
  note IH = "5.hyps"(2-)
  show ?case
  proof (rule progressI)
    fix r p' assume res: "parsePower A e p = (r, p')"
    from "5.hyps"(1) res
    show "p \<le> p' \<and> (p \<le> length e \<longrightarrow> p' \<le> length e) \<and> (True \<and> \<not> isl r \<longrightarrow> p < p')"
    proof (cases rule: parsePower_pcases)
      case (factor_err x)
      with progressD [OF IH(1) factor_err(1)] show ?thesis by simp
    next
      case (starstar base p1 p2 r2)
      note a = progressD [OF IH(1) starstar(1)]
      have m: "p1 < p2 \<and> p2 \<le> length e" using matchStr_True [OF starstar(2)] by simp
      note b = progressD [OF IH(2) [OF starstar(1) [symmetric] refl starstar(2) [symmetric] refl] starstar(3)]
      from a m b show ?thesis by auto
    next
      case (caret base p1 p2 p3 r2)
      note a = progressD [OF IH(1) caret(1)]
      note m1 = matchStr_mono [OF caret(2)]
      note m = match_True [OF caret(3)]
      note b = progressD [OF IH(3) [OF caret(1) [symmetric] refl caret(2) [symmetric] refl
                 caret(3) [symmetric] refl] caret(4)]
      from a m1 m b show ?thesis by auto
    next
      case (no_exponent base p1 p2)
      note a = progressD [OF IH(1) no_exponent(1)]
      from a matchStr_mono [OF no_exponent(2)] match_mono [OF no_exponent(3)]
           matchStr_bound [OF no_exponent(2)] match_bound [OF no_exponent(3)]
      show ?thesis by auto
    qed
  qed
next
  case (6 A e p)
  note IH = "6.hyps"(2-)
  note sk = skipSpaces_ge [of p e] skipSpaces_le [of p e]
  show ?case
  proof (rule progressI)
    fix r p' assume res: "parseFactor A e p = (r, p')"
    from "6.hyps"(1) res
    show "p \<le> p' \<and> (p \<le> length e \<longrightarrow> p' \<le> length e) \<and> (True \<and> \<not> isl r \<longrightarrow> p < p')"
    proof (cases rule: parseFactor_pcases)
      case (unary_plus p1)
      note m = match_True [OF unary_plus(1)]
      note a = progressD [OF IH(1) [OF refl unary_plus(1) [symmetric] refl] unary_plus(2)]
      from sk m a show ?thesis by auto
    next
      case (unary_minus p1 p2 r2)
      note m1 = match_mono [OF unary_minus(1)]
      note m = match_True [OF unary_minus(2)]
      note a = progressD [OF IH(2) [OF refl unary_minus(1) [symmetric] refl unary_minus(2) [symmetric] refl]
                 unary_minus(3)]
      from sk m1 m a show ?thesis by auto
    next
      case (paren_err p1 p2 p3 x)
      note m1 = match_mono [OF paren_err(1)] match_mono [OF paren_err(2)]
      note m = match_True [OF paren_err(3)]
      note a = progressD [OF IH(3) [OF refl paren_err(1) [symmetric] refl paren_err(2) [symmetric] refl
                 paren_err(3) [symmetric] refl] paren_err(4)]
      from sk m1 m a show ?thesis by auto
    next
      case (paren p1 p2 p3 v p4 b)
      note m1 = match_mono [OF paren(1)] match_mono [OF paren(2)]
      note m = match_True [OF paren(3)]
      note a = progressD [OF IH(3) [OF refl paren(1) [symmetric] refl paren(2) [symmetric] refl
                 paren(3) [symmetric] refl] paren(4)]
      from sk m1 m a match_mono [OF paren(5)] match_bound [OF paren(5)] show ?thesis by auto
    next
      case (number p1 p2 p3)
      note m1 = match_mono [OF number(1)] match_mono [OF number(2)] match_mono [OF number(3)]
      note b1 = match_bound [OF number(1)] match_bound [OF number(2)] match_bound [OF number(3)]
      have st: "\<not> isl r \<Longrightarrow> p3 < p'"
        using parseNumber_strict [of A e p3 _ p'] number(4) by (cases r) auto
      from sk m1 b1 st parseNumber_mono [OF number(4)] parseNumber_bound [OF number(4)]
      show ?thesis by auto
    qed
  qed
qed


definition parser_rank where
  "parser_rank x =
     (case x of
        Inl (Inl (A, e, p)) \<Rightarrow> (length e - p, 5::nat)
      | Inl (Inr (Inl (A, e, val, p))) \<Rightarrow> (length e - p, 4)
      | Inl (Inr (Inr (A, e, p))) \<Rightarrow> (length e - p, 3)
      | Inr (Inl (A, e, val, p)) \<Rightarrow> (length e - p, 2)
      | Inr (Inr (Inl (A, e, p))) \<Rightarrow> (length e - p, 1)
      | Inr (Inr (Inr (A, e, p))) \<Rightarrow> (length e - p, 0))"

lemma match_eqD: "(b, y) = match e c p \<Longrightarrow> p \<le> y \<and> (b \<longrightarrow> p < y \<and> y \<le> length e)"
  using match_True [of e c p y] match_mono [of e c p b y] by (cases b) simp_all

lemma matchStr_eqD:
  "(b, y) = matchStr e ''**'' p \<Longrightarrow> p \<le> y \<and> (b \<longrightarrow> p < y \<and> y \<le> length e)"
  using matchStr_True [of e "''**''" p y] matchStr_mono [of e "''**''" p b y] by (cases b) simp_all

lemma nextStartsFactor_eqD:
  "(b, y) = nextStartsFactor e p \<Longrightarrow> p \<le> y \<and> (b \<longrightarrow> y < length e)"
  using nextStartsFactor_True [of e p y] nextStartsFactor_mono [of e p b y] by (cases b) simp_all

lemma parseTerm_domD:
  "parser_dom (Inl (Inr (Inr (A, e, p)))) \<Longrightarrow> (r, y) = parseTerm A e p \<Longrightarrow> p \<le> y"
  using progressD(1) [OF progress_dom(3), of A e p r y] by simp

lemma parsePower_domD:
  "parser_dom (Inr (Inr (Inl (A, e, p)))) \<Longrightarrow> (Inr v, y) = parsePower A e p \<Longrightarrow> p < y"
  using progressD(3) [OF progress_dom(5), of A e p "Inr v" y] by simp

lemma parseFactor_domD:
  "parser_dom (Inr (Inr (Inr (A, e, p)))) \<Longrightarrow> (r, y) = parseFactor A e p \<Longrightarrow> p \<le> y"
  using progressD(1) [OF progress_dom(6), of A e p r y] by simp

lemma skipSpaces_leD: "skipSpaces e p \<le> y \<Longrightarrow> p \<le> y"
  using skipSpaces_ge [of p e] by simp

lemma skipSpaces_ltD: "skipSpaces e p < y \<Longrightarrow> p < y"
  using skipSpaces_ge [of p e] by simp

lemma parser_total: "All parser_dom"
proof (rule "parseExpression_parseExpression_loop_parseTerm_parseTerm_loop_parsePower_parseFactor.termination"
    [of "inv_image (less_than <*lex*> less_than) parser_rank"], goal_cases)
  case 1
  show ?case by (intro wf_inv_image wf_lex_prod wf_less_than)
qed (auto simp: parser_rank_def
      dest!: match_eqD matchStr_eqD nextStartsFactor_eqD skipSpaces_leD skipSpaces_ltD
      dest: parseTerm_domD parsePower_domD parseFactor_domD)

termination parseExpression
  by (rule parser_total)

lemma parser_dom_all: "parser_dom x"
  using parser_total by blast

lemmas parser_progress = progress_dom [OF parser_dom_all]

declare parseExpression.simps [simp del] parseExpression_loop.simps [simp del]
  parseTerm.simps [simp del] parseTerm_loop.simps [simp del] parsePower.simps [simp del]
  parseFactor.simps [simp del]

section \<open>Running the parser on a given text\<close>

text \<open>
  The loops' equations as conditional rules, one per way through the loop body, and the
  other functions without their local variables: with these the simplifier runs the
  parser on a concrete expression from left to right.
\<close>

lemma skipSpaces_step: "p < length e \<Longrightarrow> isspace (e ! p) \<Longrightarrow> skipSpaces e p = skipSpaces e (Suc p)"
  by (subst skipSpaces.simps) simp

lemma skipSpaces_stop1: "\<not> p < length e \<Longrightarrow> skipSpaces e p = p"
  by (subst skipSpaces.simps) simp

lemma skipSpaces_stop2: "\<not> isspace (e ! p) \<Longrightarrow> skipSpaces e p = p"
  by (subst skipSpaces.simps) simp

lemma scanMantissa_digit:
  "p < length e \<Longrightarrow> isdigit (e ! p) \<Longrightarrow> scanMantissa e sd sdot p = scanMantissa e True sdot (Suc p)"
  by (subst scanMantissa.simps) simp

lemma scanMantissa_dot:
  "p < length e \<Longrightarrow> \<not> isdigit (e ! p) \<Longrightarrow> e ! p = CHR ''.'' \<Longrightarrow> \<not> sdot \<Longrightarrow>
   scanMantissa e sd sdot p = scanMantissa e sd True (Suc p)"
  by (subst scanMantissa.simps) simp

lemma scanMantissa_end: "\<not> p < length e \<Longrightarrow> scanMantissa e sd sdot p = (sd, sdot, p)"
  by (subst scanMantissa.simps) simp

lemma scanMantissa_stop:
  "\<not> isdigit (e ! p) \<Longrightarrow> e ! p \<noteq> CHR ''.'' \<or> sdot \<Longrightarrow> scanMantissa e sd sdot p = (sd, sdot, p)"
  by (subst scanMantissa.simps) auto

lemma scanDigits_step:
  "p < length e \<Longrightarrow> isdigit (e ! p) \<Longrightarrow> scanDigits e b p = scanDigits e True (Suc p)"
  by (subst scanDigits.simps) simp

lemma scanDigits_stop1: "\<not> p < length e \<Longrightarrow> scanDigits e b p = (b, p)"
  by (subst scanDigits.simps) simp

lemma scanDigits_stop2: "\<not> isdigit (e ! p) \<Longrightarrow> scanDigits e b p = (b, p)"
  by (subst scanDigits.simps) simp

lemma parseNumber_eval:
  "parseNumber A e p0 =
     (case scanMantissa e False False (skipSpaces e p0) of (seenDigit, seenDot, p1) \<Rightarrow>
        if \<not> seenDigit \<and> \<not> (scanExponent e p1 > skipSpaces e p0)
        then (Inl (ExpectedNumber (scanExponent e p1)), scanExponent e p1)
        else (case stod A (substr e (skipSpaces e p0) (scanExponent e p1 - skipSpaces e p0)) of
                Inl x \<Rightarrow> (Inl (StodError x), scanExponent e p1)
              | Inr v \<Rightarrow> (Inr v, scanExponent e p1)))"
  by (simp add: parseNumber_def Let_def)

lemma scanExponent_none: "\<not> p < length e \<Longrightarrow> scanExponent e p = p"
  by (simp add: scanExponent_def)

lemma scanExponent_other: "e ! p \<noteq> CHR ''e'' \<Longrightarrow> e ! p \<noteq> CHR ''E'' \<Longrightarrow> scanExponent e p = p"
  by (simp add: scanExponent_def)

lemma scanExponent_eval:
  "p < length e \<Longrightarrow> e ! p = CHR ''e'' \<or> e ! p = CHR ''E'' \<Longrightarrow>
   scanExponent e p =
     (case scanDigits e False
             (if Suc p < length e \<and> (e ! Suc p = CHR ''+'' \<or> e ! Suc p = CHR ''-'')
              then Suc (Suc p) else Suc p) of
        (expDigits, p3) \<Rightarrow> if \<not> expDigits then p else p3)"
  by (simp add: scanExponent_def Let_def)

lemma match_eval:
  "match e c p =
     (if skipSpaces e p < length e \<and> e ! skipSpaces e p = c
      then (True, Suc (skipSpaces e p)) else (False, skipSpaces e p))"
  by (simp add: match_def Let_def)

lemma matchStr_loop_step:
  "i < length s \<Longrightarrow> start + i < length e \<Longrightarrow> e ! (start + i) = s ! i \<Longrightarrow>
   matchStr_loop e s start i = matchStr_loop e s start (Suc i)"
  by (subst matchStr_loop.simps) simp

lemma matchStr_loop_stop:
  "\<not> (i < length s \<and> start + i < length e \<and> e ! (start + i) = s ! i) \<Longrightarrow>
   matchStr_loop e s start i = i"
  by (subst matchStr_loop.simps) (rule if_not_P)

lemma matchStr_eval:
  "matchStr e s p =
     (if \<not> matchStr_loop e s (skipSpaces e p) 0 < length s
      then (True, skipSpaces e p + matchStr_loop e s (skipSpaces e p) 0)
      else (False, skipSpaces e p))"
  by (simp add: matchStr_def Let_def)

lemma nextStartsFactor_eval:
  "nextStartsFactor e p =
     (if skipSpaces e p < length e
      then (e ! skipSpaces e p = CHR ''('' \<or> isdigit (e ! skipSpaces e p) \<or> e ! skipSpaces e p = CHR ''.'',
            skipSpaces e p)
      else (False, skipSpaces e p))"
  by (simp add: nextStartsFactor_def peek_def Let_def isdigit_def)

lemma parseFactor_eval:
  "parseFactor A e p0 =
     (case match e (CHR ''+'') (skipSpaces e p0) of
        (True, p1) \<Rightarrow> parseFactor A e p1
      | (False, p1) \<Rightarrow>
          (case match e (CHR ''-'') p1 of
             (True, p2) \<Rightarrow>
               (case parseFactor A e p2 of
                  (Inl x, p3) \<Rightarrow> (Inl x, p3)
                | (Inr v, p3) \<Rightarrow> (Inr (dneg A v), p3))
           | (False, p2) \<Rightarrow>
               (case match e (CHR ''('') p2 of
                  (True, p3) \<Rightarrow>
                    (case parseExpression A e p3 of
                       (Inl x, p4) \<Rightarrow> (Inl x, p4)
                     | (Inr v, p4) \<Rightarrow>
                         (case match e (CHR '')'') p4 of
                            (True, p5) \<Rightarrow> (Inr v, p5)
                          | (False, p5) \<Rightarrow> (Inl UnmatchedParenthesis, p5)))
                | (False, p3) \<Rightarrow> parseNumber A e p3)))"
  by (subst parseFactor.simps) (simp add: Let_def)

lemma parse_eval:
  "parse A e =
     (case parseExpression A e 0 of
        (Inl x, p) \<Rightarrow> (Inl x, p)
      | (Inr v, p) \<Rightarrow>
          if skipSpaces e p \<noteq> length e then (Inl (TrailingInput (skipSpaces e p)), skipSpaces e p)
          else (Inr v, skipSpaces e p))"
  by (simp add: parse_def Let_def split: prod.split sum.split)

lemmas eval_rules = skipSpaces_step skipSpaces_stop1 skipSpaces_stop2 scanMantissa_digit
  scanMantissa_dot scanMantissa_end scanMantissa_stop scanDigits_step scanDigits_stop1 scanDigits_stop2
  scanExponent_none scanExponent_other scanExponent_eval isspace_def isdigit_def substr_def
  match_eval matchStr_loop_step matchStr_loop_stop matchStr_eval nextStartsFactor_eval
  parseNumber_eval parseFactor_eval parse_eval evaluate_def
  parseExpression.simps parseExpression_loop.simps parseTerm.simps parseTerm_loop.simps parsePower.simps


lemmas ieee_rules = ieee_def ieee_stod_def mk_double_def ilog2_def round_half_even_def
  round_at_def underflows_def compute_bitlen exponent_digits_def ieee_sub_def ieee_of_ll_def
  ieee_pow_def is_int_def odd_int_def modulo_ll_def LLONG_MIN_def isdigit_def Let_def

section \<open>Facts about single tokens\<close>

text \<open>
  \<open>skipSpaces\<close> stops at the first character that is not a space, and skipping again from
  there changes nothing; \<open>match\<close> therefore depends only on that character.
\<close>

lemma skipSpaces_idem: "skipSpaces e (skipSpaces e p) = skipSpaces e p"
proof (induction e p rule: skipSpaces.induct)
  case (1 e p)
  show ?case
  proof (cases "p < length e \<and> isspace (e ! p)")
    case True
    then have "skipSpaces e p = skipSpaces e (Suc p)" by (subst skipSpaces.simps) simp
    with 1 True show ?thesis by simp
  next
    case False
    then have "skipSpaces e p = p" by (subst skipSpaces.simps) auto
    then show ?thesis by simp
  qed
qed

lemma skipSpaces_fixed: "skipSpaces e p = q \<Longrightarrow> skipSpaces e q = q"
  using skipSpaces_idem by blast

lemma match_at:
  "skipSpaces e p = q \<Longrightarrow> q < length e \<Longrightarrow> e ! q = c \<Longrightarrow> match e c p = (True, Suc q)"
  by (simp add: match_eval)

lemma match_not_at:
  "skipSpaces e p = q \<Longrightarrow> q < length e \<Longrightarrow> e ! q \<noteq> c \<Longrightarrow> match e c p = (False, q)"
  by (simp add: match_eval)

lemma match_at_end:
  "skipSpaces e p = q \<Longrightarrow> \<not> q < length e \<Longrightarrow> match e c p = (False, q)"
  by (simp add: match_eval)

lemma matchStr_not_star:
  "skipSpaces e p = q \<Longrightarrow> q < length e \<Longrightarrow> e ! q \<noteq> CHR ''*'' \<Longrightarrow>
   matchStr e ''**'' p = (False, q)"
  by (simp add: matchStr_eval matchStr_loop_stop)

section \<open>The claims\<close>

text \<open>
  Claim C1. Unary minus is applied to the base before exponentiation. When the text at
  the cursor is \<^verbatim>\<open>-\<close>, then a factor of value \<open>v\<close>, then \<^verbatim>\<open>^\<close>, then a power of value \<open>ex\<close>,
  \<open>parsePower\<close> returns \<^verbatim>\<open>pow(-v, ex)\<close>: the minus sign was consumed inside the factor that
  forms the base. So \<^verbatim>\<open>-2^2\<close> evaluates to \<open>4\<close>, that is \<open>(-2)^2\<close>, not to \<open>-4\<close>.
\<close>

theorem unary_minus_is_part_of_the_base:
  "(skipSpaces e p = q \<and> q < length e \<and> e ! q = CHR ''-'' \<and>
    parseFactor A e (Suc q) = (Inr v, p3) \<and>
    skipSpaces e p3 = r \<and> r < length e \<and> e ! r = CHR ''^'' \<and>
    parsePower A e (Suc r) = (Inr ex, p5)
    \<longrightarrow> parsePower A e p = (Inr (dpow A (dneg A v) ex), p5)) \<and>
   evaluate ieee ''-2^2'' = Inr (Finite False 4)"
proof (intro conjI impI)
  assume h: "skipSpaces e p = q \<and> q < length e \<and> e ! q = CHR ''-'' \<and>
    parseFactor A e (Suc q) = (Inr v, p3) \<and>
    skipSpaces e p3 = r \<and> r < length e \<and> e ! r = CHR ''^'' \<and>
    parsePower A e (Suc r) = (Inr ex, p5)"
  then have q: "skipSpaces e p = q" "q < length e" "e ! q = CHR ''-''"
    and f: "parseFactor A e (Suc q) = (Inr v, p3)"
    and r: "skipSpaces e p3 = r" "r < length e" "e ! r = CHR ''^''"
    and x: "parsePower A e (Suc r) = (Inr ex, p5)"
    by simp_all
  have qq: "skipSpaces e q = q" using q(1) by (rule skipSpaces_fixed)
  have m1: "match e (CHR ''+'') (skipSpaces e p) = (False, q)"
    using q qq by (simp add: match_not_at)
  have m2: "match e (CHR ''-'') q = (True, Suc q)"
    using q qq by (simp add: match_at)
  have factor: "parseFactor A e p = (Inr (dneg A v), p3)"
    by (subst parseFactor_eval) (simp add: m1 m2 f)
  have s: "matchStr e ''**'' p3 = (False, r)"
    using r by (simp add: matchStr_not_star)
  have rr: "skipSpaces e r = r" using r(1) by (rule skipSpaces_fixed)
  have m3: "match e (CHR ''^'') r = (True, Suc r)"
    using r rr by (simp add: match_at)
  show "parsePower A e p = (Inr (dpow A (dneg A v) ex), p5)"
    by (subst parsePower.simps) (simp add: factor s m3 x)
next
  show "evaluate ieee ''-2^2'' = Inr (Finite False 4)"
    by (simp add: eval_rules ieee_rules)
qed

theorem unary_minus_is_part_of_the_base_witness:
  "parsePower ieee ''-2^2'' 0 = (Inr (ieee_pow (ieee_neg (Finite False 2)) (Finite False 2)), 4)"
proof -
  have f: "parseFactor ieee ''-2^2'' (Suc 0) = (Inr (Finite False 2), 2)"
    by (simp add: eval_rules ieee_rules)
  have x: "parsePower ieee ''-2^2'' (Suc 2) = (Inr (Finite False 2), 4)"
    by (simp add: eval_rules ieee_rules)
  have s0: "skipSpaces ''-2^2'' 0 = 0" and s2: "skipSpaces ''-2^2'' 2 = 2"
    by (simp_all add: eval_rules)
  from unary_minus_is_part_of_the_base [of "''-2^2''" 0 0 ieee "Finite False 2" 2 2 "Finite False 2" 4]
    f x s0 s2
  show ?thesis by (simp add: ieee_def)
qed

lemma isdigit_not_operator:
  "isdigit c \<Longrightarrow> c \<noteq> CHR ''*'' \<and> c \<noteq> CHR ''/'' \<and> c \<noteq> CHR ''%'' \<and> c \<noteq> CHR ''+'' \<and> c \<noteq> CHR ''-''"
  by (auto simp: isdigit_def)

lemma nextStartsFactor_at:
  "skipSpaces e p = q \<Longrightarrow> q < length e \<Longrightarrow>
   nextStartsFactor e p = (e ! q = CHR ''('' \<or> isdigit (e ! q) \<or> e ! q = CHR ''.'', q)"
  by (simp add: nextStartsFactor_eval)

text \<open>
  Claim C2. Implicit multiplication. In the loop of \<open>parseTerm\<close>, when the next character
  that is not a space is \<^verbatim>\<open>(\<close>, a digit or \<^verbatim>\<open>.\<close> (so none of the operators \<^verbatim>\<open>*\<close>, \<^verbatim>\<open>/\<close>,
  \<^verbatim>\<open>%\<close> is there), a power is parsed from that character and multiplied to the value so
  far. When it is \<^verbatim>\<open>+\<close> or \<^verbatim>\<open>-\<close>, the loop of \<open>parseTerm\<close> ends without consuming it, and
  the loop of \<open>parseExpression\<close> takes it as the next additive operator. So \<^verbatim>\<open>2(3+4)\<close> is
  \<open>14\<close>, \<^verbatim>\<open>3.5(2)\<close> is \<open>7\<close>, \<^verbatim>\<open>3 4\<close> is \<open>12\<close>, and \<^verbatim>\<open>2 -3\<close> is the subtraction \<open>2 - 3\<close>.
\<close>

theorem implicit_multiplication:
  "(skipSpaces e p = q \<and> q < length e \<and>
    (e ! q = CHR ''('' \<or> isdigit (e ! q) \<or> e ! q = CHR ''.'')
    \<longrightarrow> parseTerm_loop A e val p =
          (case parsePower A e q of
             (Inl x, p') \<Rightarrow> (Inl x, p')
           | (Inr r, p') \<Rightarrow> parseTerm_loop A e (dmul A val r) p')) \<and>
   (skipSpaces e p = q \<and> q < length e \<and> (e ! q = CHR ''+'' \<or> e ! q = CHR ''-'')
    \<longrightarrow> parseTerm_loop A e val p = (Inr val, q) \<and>
        parseExpression_loop A e val q =
          (case parseTerm A e (Suc q) of
             (Inl x, p') \<Rightarrow> (Inl x, p')
           | (Inr t, p') \<Rightarrow>
               parseExpression_loop A e
                 (if e ! q = CHR ''+'' then dadd A val t else dsub A val t) p')) \<and>
   evaluate ieee ''2(3+4)'' = Inr (Finite False 14) \<and>
   evaluate ieee ''(1+2)(3+4)'' = Inr (Finite False 21) \<and>
   evaluate ieee ''3.5(2)'' = Inr (Finite False 7) \<and>
   evaluate ieee ''3 4'' = Inr (Finite False 12) \<and>
   evaluate ieee ''2 -3'' = Inr (Finite True 1) \<and>
   evaluate ieee ''2 +3'' = Inr (Finite False 5)"
proof (intro conjI impI)
  assume h: "skipSpaces e p = q \<and> q < length e \<and>
    (e ! q = CHR ''('' \<or> isdigit (e ! q) \<or> e ! q = CHR ''.'')"
  then have q: "skipSpaces e p = q" "q < length e" by simp_all
  have qq: "skipSpaces e q = q" using q(1) by (rule skipSpaces_fixed)
  from h have ne: "e ! q \<noteq> CHR ''*''" "e ! q \<noteq> CHR ''/''" "e ! q \<noteq> CHR ''%''"
    using isdigit_not_operator [of "e ! q"] by auto
  have m1: "match e (CHR ''*'') p = (False, q)" using q ne by (simp add: match_not_at)
  have m2: "match e (CHR ''/'') q = (False, q)" using qq q ne by (simp add: match_not_at)
  have m3: "match e (CHR ''%'') q = (False, q)" using qq q ne by (simp add: match_not_at)
  have n: "nextStartsFactor e q = (True, q)" using qq q h by (simp add: nextStartsFactor_at)
  show "parseTerm_loop A e val p =
          (case parsePower A e q of
             (Inl x, p') \<Rightarrow> (Inl x, p')
           | (Inr r, p') \<Rightarrow> parseTerm_loop A e (dmul A val r) p')"
    by (subst parseTerm_loop.simps) (simp add: m1 m2 m3 n)
next
  assume h: "skipSpaces e p = q \<and> q < length e \<and> (e ! q = CHR ''+'' \<or> e ! q = CHR ''-'')"
  then have q: "skipSpaces e p = q" "q < length e" by simp_all
  have qq: "skipSpaces e q = q" using q(1) by (rule skipSpaces_fixed)
  from h have ne: "e ! q \<noteq> CHR ''*''" "e ! q \<noteq> CHR ''/''" "e ! q \<noteq> CHR ''%''"
    "e ! q \<noteq> CHR ''(''" "e ! q \<noteq> CHR ''.''" "\<not> isdigit (e ! q)"
    by (auto simp: isdigit_def)
  have m1: "match e (CHR ''*'') p = (False, q)" using q ne by (simp add: match_not_at)
  have m2: "match e (CHR ''/'') q = (False, q)" using qq q ne by (simp add: match_not_at)
  have m3: "match e (CHR ''%'') q = (False, q)" using qq q ne by (simp add: match_not_at)
  have n: "nextStartsFactor e q = (False, q)" using qq q ne by (simp add: nextStartsFactor_at)
  show "parseTerm_loop A e val p = (Inr val, q)"
    by (subst parseTerm_loop.simps) (simp add: m1 m2 m3 n)
  from h consider (plus) "e ! q = CHR ''+''" | (minus) "e ! q = CHR ''-''" by blast
  then show "parseExpression_loop A e val q =
          (case parseTerm A e (Suc q) of
             (Inl x, p') \<Rightarrow> (Inl x, p')
           | (Inr t, p') \<Rightarrow>
               parseExpression_loop A e
                 (if e ! q = CHR ''+'' then dadd A val t else dsub A val t) p')"
  proof cases
    case plus
    have "match e (CHR ''+'') q = (True, Suc q)" using qq q plus by (simp add: match_at)
    then show ?thesis
      by (subst parseExpression_loop.simps) (simp add: plus split: prod.split sum.split)
  next
    case minus
    have a: "match e (CHR ''+'') q = (False, q)" using qq q minus by (simp add: match_not_at)
    have b: "match e (CHR ''-'') q = (True, Suc q)" using qq q minus by (simp add: match_at)
    show ?thesis
      by (subst parseExpression_loop.simps) (simp add: a b minus split: prod.split sum.split)
  qed
qed (simp_all add: eval_rules ieee_rules)

theorem implicit_multiplication_witness:
  "parseTerm_loop ieee ''3 4'' (Finite False 3) 1 = (Inr (Finite False 12), 3) \<and>
   parseTerm_loop ieee ''2 -3'' (Finite False 2) 1 = (Inr (Finite False 2), 2) \<and>
   parseExpression_loop ieee ''2 -3'' (Finite False 2) 2 = (Inr (Finite True 1), 4)"
proof -
  have s1: "skipSpaces ''3 4'' 1 = 2" and s2: "skipSpaces ''2 -3'' 1 = 2"
    by (simp_all add: eval_rules)
  have p: "parsePower ieee ''3 4'' 2 = (Inr (Finite False 4), 3)"
    and l: "parseTerm_loop ieee ''3 4'' (Finite False 12) 3 = (Inr (Finite False 12), 3)"
    and t: "parseTerm ieee ''2 -3'' 3 = (Inr (Finite False 3), 4)"
    and l2: "parseExpression_loop ieee ''2 -3'' (Finite True 1) 4 = (Inr (Finite True 1), 4)"
    and d: "isdigit (CHR ''4'')"
    and m: "ieee_mul (Finite False 3) (Finite False 4) = Finite False 12"
    and sb: "ieee_sub (Finite False 2) (Finite False 3) = Finite True 1"
    by (simp_all add: eval_rules ieee_rules)
  from implicit_multiplication [of "''3 4''" 1 2 ieee "Finite False 3"] s1 p l d m
  have 1: "parseTerm_loop ieee ''3 4'' (Finite False 3) 1 = (Inr (Finite False 12), 3)"
    by (simp add: ieee_def)
  from implicit_multiplication [of "''2 -3''" 1 2 ieee "Finite False 2"] s2 t l2 sb
  have 2: "parseTerm_loop ieee ''2 -3'' (Finite False 2) 1 = (Inr (Finite False 2), 2)"
    and 3: "parseExpression_loop ieee ''2 -3'' (Finite False 2) 2 = (Inr (Finite True 1), 4)"
    by (simp_all add: ieee_def)
  from 1 2 3 show ?thesis by simp
qed

lemma sint_word_of_int_64:
  "- (2 ^ 63) \<le> k \<Longrightarrow> k < 2 ^ 63 \<Longrightarrow> sint (word_of_int k :: 64 word) = k"
  by (simp add: signed_of_int signed_take_bit_int_eq_self)

lemma word_of_int_64_eq_iff:
  assumes "- (2 ^ 63) \<le> k" "k < 2 ^ 63" "- (2 ^ 63) \<le> l" "l < 2 ^ 63"
  shows "(word_of_int k :: 64 word) = word_of_int l \<longleftrightarrow> k = l"
proof
  assume "(word_of_int k :: 64 word) = word_of_int l"
  then have "sint (word_of_int k :: 64 word) = sint (word_of_int l :: 64 word)" by simp
  with assms show "k = l" by (simp add: sint_word_of_int_64)
qed simp

lemma smod_in_range:
  assumes "- (2 ^ 63) \<le> (b::int)" "b < 2 ^ 63" "b \<noteq> 0"
  shows "- (2 ^ 63) \<le> a smod b \<and> a smod b < 2 ^ 63"
  using smod_int_range [OF assms(3), of a] assms(1,2) by auto

lemma ieee_to_ll_in_range:
  assumes "a = (if s then - \<lfloor>m\<rfloor> else \<lfloor>m\<rfloor>)" "- (2 ^ 63) \<le> a" "a < 2 ^ 63"
  shows "ieee_to_ll (Finite s m) = Some (word_of_int a)"
  using assms by (simp add: Let_def)

lemma ieee_modulo:
  assumes a: "a = (if s then - \<lfloor>m\<rfloor> else \<lfloor>m\<rfloor>)" "- (2 ^ 63) \<le> a" "a < 2 ^ 63"
      and b: "b = (if t then - \<lfloor>n\<rfloor> else \<lfloor>n\<rfloor>)" "- (2 ^ 63) \<le> b" "b < 2 ^ 63"
      and ub: "\<not> (a = - (2 ^ 63) \<and> b = - 1)"
  shows "modulo_ll ieee (Finite s m) (Finite t n) =
           (if b = 0 then Inl ModuloByZero
            else Inr (mk_double (a smod b < 0) (of_int \<bar>a smod b\<bar>)))"
proof -
  have ta: "to_ll ieee (Finite s m) = Some (word_of_int a)"
    using ieee_to_ll_in_range [OF a] by (simp add: ieee_def)
  have tb: "to_ll ieee (Finite t n) = Some (word_of_int b)"
    using ieee_to_ll_in_range [OF b] by (simp add: ieee_def)
  have z: "(word_of_int b :: 64 word) = 0 \<longleftrightarrow> b = 0"
    using word_of_int_64_eq_iff [of b 0] b by simp
  have mn: "(word_of_int a :: 64 word) = LLONG_MIN \<longleftrightarrow> a = - (2 ^ 63)"
    using word_of_int_64_eq_iff [of a "- (2 ^ 63)"] a by (simp add: LLONG_MIN_def)
  have m1: "(word_of_int b :: 64 word) = - 1 \<longleftrightarrow> b = - 1"
    using word_of_int_64_eq_iff [of b "- 1"] b by simp
  show ?thesis
  proof (cases "b = 0")
    case True
    then show ?thesis by (simp add: modulo_ll_def ta tb)
  next
    case False
    have r: "sint (word_of_int (a smod b) :: 64 word) = a smod b"
      using smod_in_range [OF b(2,3) False, of a] by (simp add: sint_word_of_int_64)
    have sa: "sint (word_of_int a :: 64 word) = a" using a by (simp add: sint_word_of_int_64)
    have sb: "sint (word_of_int b :: 64 word) = b" using b by (simp add: sint_word_of_int_64)
    from False ub show ?thesis
      by (simp add: modulo_ll_def ta tb z mn m1 sa sb r) (simp add: ieee_def ieee_of_ll_def r)
  qed
qed

lemma round_half_even_of_int: "round_half_even (of_int j) = j"
  by (simp add: round_half_even_def)

lemma ilog2_of_int: "0 < k \<Longrightarrow> ilog2 (of_int k) = bitlen k - 1"
  by (simp add: ilog2_def)

lemma mk_double_of_int_exact:
  assumes k: "0 < k" "k \<le> 2 ^ 53"
  shows "mk_double s (of_int k) = Finite s (of_int k)"
proof -
  define e where "e = bitlen k - 1"
  have bl: "2 ^ nat e \<le> k" "k < 2 ^ nat (bitlen k)"
    using bitlen_bounds [OF k(1)] by (simp_all add: e_def)
  have e0: "0 \<le> e"
    using k(1) bitlen_eq_zero_iff [of k] bitlen_nonneg [of k] by (simp add: e_def)
  have "bitlen k \<le> 54"
    using k by (simp add: bitlen_le_iff_power)
  then have e53: "e \<le> 53" by (simp add: e_def)
  define P :: real where "P = 2 powi (52 - e)"
  have P0: "P \<noteq> 0" by (simp add: P_def)
  have Pinv: "2 powi (e - 52) = inverse P"
    using power_int_minus [of "2::real" "52 - e"] by (simp add: P_def)
  obtain j :: int where j: "of_int k * P = of_int j"
  proof (cases "e \<le> 52")
    case True
    then have "P = of_int (2 ^ nat (52 - e))" by (simp add: P_def power_int_def)
    then have "of_int k * P = of_int (k * 2 ^ nat (52 - e))" by simp
    then show ?thesis using that by blast
  next
    case False
    with e53 have e: "e = 53" by simp
    with bl(1) k(2) have "k = 2 ^ 53" by simp
    moreover from e have "P = 1 / 2" by (simp add: P_def)
    ultimately have "of_int k * P = of_int (2 ^ 52)" by simp
    then show ?thesis using that by blast
  qed
  have j53: "j \<noteq> 2 ^ 53 \<or> e \<noteq> 1023" using e53 by simp
  have m: "max (ilog2 (of_int k)) (- 1022) = e"
    using e0 k(1) by (simp add: ilog2_of_int e_def)
  have "mk_double s (of_int k) = Finite s (of_int j * inverse P)"
    using k(1) e53 by (simp add: mk_double_def m Let_def j [unfolded P_def] round_half_even_of_int Pinv)
  moreover have "of_int j * inverse P = of_int k"
    using j P0 by (simp add: field_simps)
  ultimately show ?thesis by simp
qed

text \<open>
  Claim C3 (as amended). For every modulo operation whose two operands, with the
  fractional part discarded, fit a 64-bit signed integer (\<^verbatim>\<open>LLONG_MIN % -1\<close> apart): in
  the loop of \<open>parseTerm\<close>, when the next character that is not a space is \<^verbatim>\<open>%\<close> and the
  power after it has the value \<open>rhs\<close>, the loop goes on with the result of the modulo
  operation on \<open>val\<close> and \<open>rhs\<close>, or fails with its failure. In binary64, for operands of
  signs \<open>s\<close>, \<open>t\<close> and magnitudes \<open>m\<close>, \<open>n\<close>, the operation truncates both towards zero
  (to \<open>a\<close> and \<open>b\<close>), fails with ModuloByZero exactly when \<open>b = 0\<close>, and otherwise returns
  the remainder of the truncating division of \<open>a\<close> by \<open>b\<close> converted to binary64; the
  conversion is exact for a remainder of magnitude up to \<open>2 ^ 53\<close>. So
  \<^verbatim>\<open>5%3\<close> is \<open>2\<close>, \<^verbatim>\<open>5.9 % 3.1\<close> is \<open>2\<close>, \<^verbatim>\<open>-7%3\<close> is \<open>-1\<close>, and \<^verbatim>\<open>5%0\<close> and \<^verbatim>\<open>5 % 0.5\<close>
  fail with ModuloByZero.
\<close>

theorem modulo_truncates_operands:
  "(skipSpaces e p = q \<and> q < length e \<and> e ! q = CHR ''%'' \<and>
    parsePower A e (Suc q) = (Inr rhs, p4)
    \<longrightarrow> parseTerm_loop A e val p =
          (case modulo_ll A val rhs of
             Inl x \<Rightarrow> (Inl x, p4)
           | Inr v \<Rightarrow> parseTerm_loop A e v p4)) \<and>
   (a = (if s then - \<lfloor>m\<rfloor> else \<lfloor>m\<rfloor>) \<and> - (2 ^ 63) \<le> a \<and> a < 2 ^ 63 \<and>
    b = (if t then - \<lfloor>n\<rfloor> else \<lfloor>n\<rfloor>) \<and> - (2 ^ 63) \<le> b \<and> b < 2 ^ 63 \<and>
    \<not> (a = - (2 ^ 63) \<and> b = - 1)
    \<longrightarrow> modulo_ll ieee (Finite s m) (Finite t n) =
          (if b = 0 then Inl ModuloByZero
           else Inr (mk_double (a smod b < 0) (of_int \<bar>a smod b\<bar>)))) \<and>
   (\<bar>r\<bar> \<le> 2 ^ 53 \<longrightarrow> mk_double (r < 0) (of_int \<bar>r\<bar>) = Finite (r < 0) (of_int \<bar>r\<bar>)) \<and>
   evaluate ieee ''5%3'' = Inr (Finite False 2) \<and>
   evaluate ieee ''5.9 % 3.1'' = Inr (Finite False 2) \<and>
   evaluate ieee ''-7%3'' = Inr (Finite True 1) \<and>
   evaluate ieee ''7%-3'' = Inr (Finite False 1) \<and>
   evaluate ieee ''5%0'' = Inl ModuloByZero \<and>
   evaluate ieee ''5 % 0.5'' = Inl ModuloByZero"
proof (intro conjI impI)
  assume h: "skipSpaces e p = q \<and> q < length e \<and> e ! q = CHR ''%'' \<and>
    parsePower A e (Suc q) = (Inr rhs, p4)"
  then have q: "skipSpaces e p = q" "q < length e" "e ! q = CHR ''%''"
    and r: "parsePower A e (Suc q) = (Inr rhs, p4)"
    by simp_all
  have qq: "skipSpaces e q = q" using q(1) by (rule skipSpaces_fixed)
  have m1: "match e (CHR ''*'') p = (False, q)" using q by (simp add: match_not_at)
  have m2: "match e (CHR ''/'') q = (False, q)" using qq q by (simp add: match_not_at)
  have m3: "match e (CHR ''%'') q = (True, Suc q)" using qq q by (simp add: match_at)
  show "parseTerm_loop A e val p =
          (case modulo_ll A val rhs of
             Inl x \<Rightarrow> (Inl x, p4)
           | Inr v \<Rightarrow> parseTerm_loop A e v p4)"
    by (subst parseTerm_loop.simps) (simp add: m1 m2 m3 r)
next
  assume "a = (if s then - \<lfloor>m\<rfloor> else \<lfloor>m\<rfloor>) \<and> - (2 ^ 63) \<le> a \<and> a < 2 ^ 63 \<and>
    b = (if t then - \<lfloor>n\<rfloor> else \<lfloor>n\<rfloor>) \<and> - (2 ^ 63) \<le> b \<and> b < 2 ^ 63 \<and>
    \<not> (a = - (2 ^ 63) \<and> b = - 1)"
  then show "modulo_ll ieee (Finite s m) (Finite t n) =
          (if b = 0 then Inl ModuloByZero
           else Inr (mk_double (a smod b < 0) (of_int \<bar>a smod b\<bar>)))"
    by (intro ieee_modulo) blast+
next
  assume small: "\<bar>r\<bar> \<le> 2 ^ 53"
  show "mk_double (r < 0) (of_int \<bar>r\<bar>) = Finite (r < 0) (of_int \<bar>r\<bar>)"
  proof (cases "r = 0")
    case True
    then show ?thesis by (simp add: mk_double_def)
  next
    case False
    then have "0 < \<bar>r\<bar>" by simp
    then show ?thesis using small by (rule mk_double_of_int_exact)
  qed
qed (simp_all add: eval_rules ieee_rules)

theorem modulo_truncates_operands_witness:
  "parseTerm_loop ieee ''5%3'' (Finite False 5) 1 = (Inr (Finite False 2), 3) \<and>
   modulo_ll ieee (Finite False (59 / 10)) (Finite False (31 / 10)) = Inr (Finite False 2) \<and>
   modulo_ll ieee (Finite True 7) (Finite False 3) = Inr (Finite True 1) \<and>
   modulo_ll ieee (Finite False 5) (Finite False (1 / 2)) = Inl ModuloByZero"
proof -
  have s: "skipSpaces ''5%3'' 1 = 1"
    and r: "parsePower ieee ''5%3'' (Suc 1) = (Inr (Finite False 3), 3)"
    and l: "parseTerm_loop ieee ''5%3'' (Finite False 2) 3 = (Inr (Finite False 2), 3)"
    and v2: "mk_double False 2 = Finite False 2"
    and v1: "mk_double True 1 = Finite True 1"
    by (simp_all add: eval_rules ieee_rules)
  from modulo_truncates_operands
    [of "''5%3''" 1 1 ieee "Finite False 3" 3 "Finite False 5" 5 False 5 3 False 3 2] s r l v2
  have 1: "parseTerm_loop ieee ''5%3'' (Finite False 5) 1 = (Inr (Finite False 2), 3)"
    by simp
  from modulo_truncates_operands [of "''5%3''" 1 1 ieee "Finite False 3" 3 "Finite False 5" 5 False "59 / 10" 3 False "31 / 10" 2]
  have 2: "modulo_ll ieee (Finite False (59 / 10)) (Finite False (31 / 10)) = Inr (Finite False 2)"
    by simp
  from modulo_truncates_operands [of "''5%3''" 1 1 ieee "Finite False 3" 3 "Finite False 5" "- 7" True 7 3 False 3 "- 1"]
  have 3: "modulo_ll ieee (Finite True 7) (Finite False 3) = Inr (Finite True 1)"
    by simp
  from modulo_truncates_operands [of "''5%3''" 1 1 ieee "Finite False 3" 3 "Finite False 5" 5 False 5 0 False "1 / 2" 0]
  have 4: "modulo_ll ieee (Finite False 5) (Finite False (1 / 2)) = Inl ModuloByZero"
    by simp
  from 1 2 3 4 show ?thesis by simp
qed

theorem modulo_out_of_range_counterexample:
  "ieee_stod ''1e19'' = Inr (Finite False 10000000000000000000) \<and>
   ieee_to_ll (Finite False 10000000000000000000) = None \<and>
   evaluate ieee ''1e19 % 7'' = Inl UndefinedBehaviour"
  by (simp add: eval_rules ieee_rules)

text \<open>
  Claim C4. A malformed scientific-notation suffix is not consumed. When the character at
  the cursor is \<^verbatim>\<open>e\<close> or \<^verbatim>\<open>E\<close> and no digit follows it (after an optional sign), the scan
  of the suffix leaves the cursor where it was, before the \<^verbatim>\<open>e\<close>; a literal whose
  mantissa has a digit then has the value of its mantissa alone and ends before the
  \<^verbatim>\<open>e\<close>. So \<^verbatim>\<open>1e\<close> parses the number \<open>1\<close>, and the evaluation of \<^verbatim>\<open>1e\<close> fails with
  TrailingInput at offset \<open>1\<close>, the offset of the \<^verbatim>\<open>e\<close>.
\<close>

theorem malformed_exponent_not_consumed:
  "(p < length e \<and> (e ! p = CHR ''e'' \<or> e ! p = CHR ''E'') \<and>
    p2 = (if Suc p < length e \<and> (e ! Suc p = CHR ''+'' \<or> e ! Suc p = CHR ''-'')
          then Suc (Suc p) else Suc p) \<and>
    \<not> (p2 < length e \<and> isdigit (e ! p2))
    \<longrightarrow> scanExponent e p = p \<and>
        (scanMantissa e False False (skipSpaces e p0) = (True, sdot, p)
         \<longrightarrow> parseNumber A e p0 =
               (case stod A (substr e (skipSpaces e p0) (p - skipSpaces e p0)) of
                  Inl x \<Rightarrow> Inl (StodError x)
                | Inr v \<Rightarrow> Inr v, p))) \<and>
   parseNumber ieee ''1e'' 0 = (Inr (Finite False 1), 1) \<and>
   parse ieee ''1e'' = (Inl (TrailingInput 1), 1) \<and>
   evaluate ieee ''1e'' = Inl (TrailingInput 1) \<and>
   what (TrailingInput 1) = ''Unexpected trailing input at pos 1'' \<and>
   evaluate ieee ''1e+'' = Inl (TrailingInput 1) \<and>
   evaluate ieee ''2.5E-x'' = Inl (TrailingInput 3) \<and>
   evaluate ieee ''1e2'' = Inr (Finite False 100)"
proof (intro conjI impI)
  assume h: "p < length e \<and> (e ! p = CHR ''e'' \<or> e ! p = CHR ''E'') \<and>
    p2 = (if Suc p < length e \<and> (e ! Suc p = CHR ''+'' \<or> e ! Suc p = CHR ''-'')
          then Suc (Suc p) else Suc p) \<and>
    \<not> (p2 < length e \<and> isdigit (e ! p2))"
  then have nd: "\<not> (p2 < length e \<and> isdigit (e ! p2))"
    and p2: "p2 = (if Suc p < length e \<and> (e ! Suc p = CHR ''+'' \<or> e ! Suc p = CHR ''-'')
          then Suc (Suc p) else Suc p)"
    and pe: "p < length e" "e ! p = CHR ''e'' \<or> e ! p = CHR ''E''"
    by blast+
  from nd have d: "scanDigits e False p2 = (False, p2)"
    by (subst scanDigits.simps) (rule if_not_P)
  have "scanExponent e p = (case scanDigits e False p2 of (expDigits, p3) \<Rightarrow> if \<not> expDigits then p else p3)"
    unfolding p2 using pe by (rule scanExponent_eval)
  with d show rollback: "scanExponent e p = p"
    by simp
  assume m: "scanMantissa e False False (skipSpaces e p0) = (True, sdot, p)"
  show "parseNumber A e p0 =
               (case stod A (substr e (skipSpaces e p0) (p - skipSpaces e p0)) of
                  Inl x \<Rightarrow> Inl (StodError x)
                | Inr v \<Rightarrow> Inr v, p)"
    by (simp add: parseNumber_eval m rollback split: sum.split)
qed (simp_all add: eval_rules ieee_rules to_string.simps char_of_eq_iff)

theorem malformed_exponent_not_consumed_witness:
  "scanExponent ''1e'' 1 = 1 \<and>
   parseNumber ieee ''1e'' 0 = (Inr (Finite False 1), 1)"
proof -
  have m: "scanMantissa ''1e'' False False (skipSpaces ''1e'' 0) = (True, False, 1)"
    and s: "ieee_stod (substr ''1e'' (skipSpaces ''1e'' 0) (1 - skipSpaces ''1e'' 0)) = Inr (Finite False 1)"
    by (simp_all add: eval_rules ieee_rules)
  from malformed_exponent_not_consumed [of 1 "''1e''" 2 0 False ieee] m s
  show ?thesis by (simp add: ieee_def)
qed

text \<open>
  Claim C5 (not met by the code). A literal without any digit in its mantissa should fail
  with ExpectedNumber at its offset. The test \<^verbatim>\<open>!seenDigit && !(pos > start)\<close> fires
  only when nothing at all was consumed, so a lone \<^verbatim>\<open>.\<close> passes it and its text goes to
  \<^verbatim>\<open>stod\<close>: the evaluation of \<^verbatim>\<open>.\<close> ends with the \<^verbatim>\<open>invalid_argument\<close> of \<^verbatim>\<open>stod\<close>, not with
  ExpectedNumber at offset \<open>0\<close>. (Where nothing is consumed, as in \<^verbatim>\<open>3 + \<close> or the empty
  text, ExpectedNumber is thrown.)
\<close>

theorem lone_dot_reaches_stod:
  "(skipSpaces e p = q \<and> q < length e \<and> e ! q = CHR ''.'' \<and>
    (Suc q < length e \<longrightarrow>
       \<not> isdigit (e ! Suc q) \<and> e ! Suc q \<noteq> CHR ''e'' \<and> e ! Suc q \<noteq> CHR ''E'')
    \<longrightarrow> parseNumber A e p =
          (case stod A ''.'' of Inl x \<Rightarrow> Inl (StodError x) | Inr v \<Rightarrow> Inr v, Suc q)) \<and>
   parseNumber A ''.'' 0 =
     (case stod A ''.'' of Inl x \<Rightarrow> Inl (StodError x) | Inr v \<Rightarrow> Inr v, 1) \<and>
   evaluate A ''.'' \<noteq> Inl (ExpectedNumber 0) \<and>
   evaluate ieee ''.'' = Inl (StodError InvalidArgument) \<and>
   what (StodError InvalidArgument) = ''stod'' \<and>
   what (ExpectedNumber 0) = ''Expected number at pos 0'' \<and>
   evaluate ieee ''2*.'' = Inl (StodError InvalidArgument) \<and>
   evaluate ieee ''e5'' = Inl (StodError InvalidArgument) \<and>
   evaluate ieee ''3 + '' = Inl (ExpectedNumber 4) \<and>
   evaluate ieee '''' = Inl (ExpectedNumber 0)"
proof (intro conjI impI)
  assume h: "skipSpaces e p = q \<and> q < length e \<and> e ! q = CHR ''.'' \<and>
    (Suc q < length e \<longrightarrow>
       \<not> isdigit (e ! Suc q) \<and> e ! Suc q \<noteq> CHR ''e'' \<and> e ! Suc q \<noteq> CHR ''E'')"
  then have q: "skipSpaces e p = q" "q < length e" "e ! q = CHR ''.''" by simp_all
  have nd: "\<not> isdigit (e ! q)" using q(3) by (simp add: isdigit_def)
  have stop: "scanMantissa e False True (Suc q) = (False, True, Suc q)"
    using h by (subst scanMantissa.simps) auto
  have m: "scanMantissa e False False q = (False, True, Suc q)"
    using q nd stop by (subst scanMantissa.simps) simp
  have x: "scanExponent e (Suc q) = Suc q"
    using h by (auto simp: scanExponent_def)
  have t: "substr e q (Suc 0) = ''.''"
    using q by (simp add: substr_def take_Suc_conv_app_nth Cons_nth_drop_Suc [symmetric])
  show "parseNumber A e p =
          (case stod A ''.'' of Inl x \<Rightarrow> Inl (StodError x) | Inr v \<Rightarrow> Inr v, Suc q)"
    by (simp add: parseNumber_eval q m x t split: sum.split)
next
  show n: "parseNumber A ''.'' 0 =
     (case stod A ''.'' of Inl x \<Rightarrow> Inl (StodError x) | Inr v \<Rightarrow> Inr v, 1)"
    by (simp add: eval_rules split: sum.split)
  show "evaluate A ''.'' \<noteq> Inl (ExpectedNumber 0)"
    by (cases "stod A ''.''") (simp_all add: eval_rules)
qed (simp_all add: eval_rules ieee_rules to_string.simps char_of_eq_iff)

theorem lone_dot_reaches_stod_witness:
  "parseNumber ieee ''2*.'' 2 = (Inl (StodError InvalidArgument), 3)"
proof -
  have s: "skipSpaces ''2*.'' 2 = 2"
    and d: "ieee_stod ''.'' = Inl InvalidArgument"
    by (simp_all add: eval_rules ieee_rules)
  from lone_dot_reaches_stod [of "''2*.''" 2 2 ieee] s d
  show ?thesis by (simp add: ieee_def)
qed

text \<open>
  Claim C6 (as amended). An opening \<^verbatim>\<open>(\<close> whose inner expression is not followed by \<^verbatim>\<open>)\<close>
  makes \<open>parseFactor\<close> fail with UnmatchedParenthesis. The failure carries no offset (its
  message is the fixed text \<^verbatim>\<open>Missing ')'\<close>); it is thrown with the cursor on the first
  character after the inner expression that is not a space, which for \<^verbatim>\<open>(1+2\<close> is the end
  of the input.
\<close>

theorem unmatched_parenthesis:
  "(skipSpaces e p = q \<and> q < length e \<and> e ! q = CHR ''('' \<and>
    parseExpression A e (Suc q) = (Inr v, p4) \<and>
    skipSpaces e p4 = r \<and> (r < length e \<longrightarrow> e ! r \<noteq> CHR '')'')
    \<longrightarrow> parseFactor A e p = (Inl UnmatchedParenthesis, r)) \<and>
   failure_offset UnmatchedParenthesis = None \<and>
   what UnmatchedParenthesis = ''Missing '' @ [CHR 0x27, CHR '')'', CHR 0x27] \<and>
   parse ieee ''(1+2'' = (Inl UnmatchedParenthesis, 4) \<and>
   parse ieee ''(1+2 ]'' = (Inl UnmatchedParenthesis, 5) \<and>
   parse ieee ''(1+2)'' = (Inr (Finite False 3), 5)"
proof (intro conjI impI)
  assume h: "skipSpaces e p = q \<and> q < length e \<and> e ! q = CHR ''('' \<and>
    parseExpression A e (Suc q) = (Inr v, p4) \<and>
    skipSpaces e p4 = r \<and> (r < length e \<longrightarrow> e ! r \<noteq> CHR '')'')"
  then have q: "skipSpaces e p = q" "q < length e" "e ! q = CHR ''(''"
    and x: "parseExpression A e (Suc q) = (Inr v, p4)"
    and r: "skipSpaces e p4 = r" "r < length e \<longrightarrow> e ! r \<noteq> CHR '')''"
    by simp_all
  have qq: "skipSpaces e q = q" using q(1) by (rule skipSpaces_fixed)
  have m1: "match e (CHR ''+'') (skipSpaces e p) = (False, q)"
    using q qq by (simp add: match_not_at)
  have m2: "match e (CHR ''-'') q = (False, q)" using q qq by (simp add: match_not_at)
  have m3: "match e (CHR ''('') q = (True, Suc q)" using q qq by (simp add: match_at)
  have m4: "match e (CHR '')'') p4 = (False, r)"
    using r by (cases "r < length e") (simp_all add: match_not_at match_at_end)
  show "parseFactor A e p = (Inl UnmatchedParenthesis, r)"
    by (subst parseFactor_eval) (simp add: m1 m2 m3 m4 x)
qed (simp_all add: eval_rules ieee_rules)

theorem unmatched_parenthesis_witness:
  "parseFactor ieee ''(1+2'' 0 = (Inl UnmatchedParenthesis, 4)"
proof -
  have s: "skipSpaces ''(1+2'' 0 = 0" and s': "skipSpaces ''(1+2'' 4 = 4"
    and x: "parseExpression ieee ''(1+2'' (Suc 0) = (Inr (Finite False 3), 4)"
    by (simp_all add: eval_rules ieee_rules)
  from unmatched_parenthesis [of "''(1+2''" 0 0 ieee "Finite False 3" 4 4] s s' x
  show ?thesis by simp
qed

theorem unmatched_parenthesis_offset_counterexample:
  "evaluate ieee ''(1+2'' = Inl UnmatchedParenthesis \<and>
   failure_offset UnmatchedParenthesis \<noteq> Some 4"
  by (simp add: eval_rules ieee_rules)

text \<open>
  Claim C7. Division fails with DivisionByZero exactly when the right operand compares
  equal to zero (\<^verbatim>\<open>d == 0\<close>, no tolerance); otherwise the quotient is the new value of
  the term. In the loop of \<open>parseTerm\<close>, when the next character that is not a space is
  \<^verbatim>\<open>/\<close> and the power after it has the value \<open>d\<close>, the loop fails when \<open>d\<close> is zero and
  goes on with \<^verbatim>\<open>val / d\<close> when it is not. In binary64 only the two zeros compare equal
  to zero. So \<^verbatim>\<open>1/0\<close> fails with DivisionByZero, and \<^verbatim>\<open>1/0.001\<close> is \<open>1000\<close>.
\<close>

theorem division_by_zero:
  "(skipSpaces e p = q \<and> q < length e \<and> e ! q = CHR ''/'' \<and>
    parsePower A e (Suc q) = (Inr d, p3)
    \<longrightarrow> parseTerm_loop A e val p =
          (if is_zero A d then (Inl DivisionByZero, p3)
           else parseTerm_loop A e (ddiv A val d) p3)) \<and>
   (is_zero ieee x \<longleftrightarrow> x = Finite False 0 \<or> x = Finite True 0) \<and>
   evaluate ieee ''1/0'' = Inl DivisionByZero \<and>
   evaluate ieee ''1/-0'' = Inl DivisionByZero \<and>
   evaluate ieee ''1/0.0'' = Inl DivisionByZero \<and>
   evaluate ieee ''1/0.001'' = Inr (Finite False 1000) \<and>
   evaluate ieee ''1/4'' = Inr (Finite False (1 / 4))"
proof (intro conjI impI)
  assume h: "skipSpaces e p = q \<and> q < length e \<and> e ! q = CHR ''/'' \<and>
    parsePower A e (Suc q) = (Inr d, p3)"
  then have q: "skipSpaces e p = q" "q < length e" "e ! q = CHR ''/''"
    and d: "parsePower A e (Suc q) = (Inr d, p3)"
    by simp_all
  have qq: "skipSpaces e q = q" using q(1) by (rule skipSpaces_fixed)
  have m1: "match e (CHR ''*'') p = (False, q)" using q by (simp add: match_not_at)
  have m2: "match e (CHR ''/'') q = (True, Suc q)" using qq q by (simp add: match_at)
  show "parseTerm_loop A e val p =
          (if is_zero A d then (Inl DivisionByZero, p3)
           else parseTerm_loop A e (ddiv A val d) p3)"
    by (subst parseTerm_loop.simps) (simp add: m1 m2 d)
next
  show "is_zero ieee x \<longleftrightarrow> x = Finite False 0 \<or> x = Finite True 0"
    by (cases x) (auto simp: ieee_def)
qed (simp_all add: eval_rules ieee_rules)

theorem division_by_zero_witness:
  "parseTerm_loop ieee ''1/0'' (Finite False 1) 1 = (Inl DivisionByZero, 3) \<and>
   parseTerm_loop ieee ''1/4'' (Finite False 1) 1 = (Inr (Finite False (1 / 4)), 3)"
proof -
  have s: "skipSpaces ''1/0'' 1 = 1" and s': "skipSpaces ''1/4'' 1 = 1"
    and d: "parsePower ieee ''1/0'' (Suc 1) = (Inr (Finite False 0), 3)"
    and d': "parsePower ieee ''1/4'' (Suc 1) = (Inr (Finite False 4), 3)"
    and l: "parseTerm_loop ieee ''1/4'' (Finite False (1 / 4)) 3 = (Inr (Finite False (1 / 4)), 3)"
    and v: "ieee_div (Finite False 1) (Finite False 4) = Finite False (1 / 4)"
    by (simp_all add: eval_rules ieee_rules)
  from division_by_zero [of "''1/0''" 1 1 ieee "Finite False 0" 3 "Finite False 1"] s d
  have 1: "parseTerm_loop ieee ''1/0'' (Finite False 1) 1 = (Inl DivisionByZero, 3)"
    by (simp add: ieee_def)
  from division_by_zero [of "''1/4''" 1 1 ieee "Finite False 4" 3 "Finite False 1"] s' d' l v
  have 2: "parseTerm_loop ieee ''1/4'' (Finite False 1) 1 = (Inr (Finite False (1 / 4)), 3)"
    by (simp add: ieee_def)
  from 1 2 show ?thesis by simp
qed

lemma matchStr_starstar:
  "skipSpaces e p = q \<Longrightarrow> Suc q < length e \<Longrightarrow> e ! q = CHR ''*'' \<Longrightarrow> e ! Suc q = CHR ''*'' \<Longrightarrow>
   matchStr e ''**'' p = (True, q + 2)"
  by (simp add: matchStr_eval matchStr_loop_step matchStr_loop_stop)

text \<open>
  Claim C8. Exponentiation is right-associative and binds tighter than \<^verbatim>\<open>*\<close>, \<^verbatim>\<open>/\<close> and
  \<^verbatim>\<open>%\<close>; \<^verbatim>\<open>^\<close> and \<^verbatim>\<open>**\<close> are equivalent exponent operators, \<^verbatim>\<open>**\<close> being tried first as a
  match of two characters. After a base of value \<open>b\<close>, either operator makes \<open>parsePower\<close>
  parse a whole power (not just a factor) as the exponent and return \<^verbatim>\<open>pow(b, ex)\<close>.
  The operand that the loop of \<open>parseTerm\<close> takes after \<^verbatim>\<open>*\<close> is a whole power as well.
  So \<^verbatim>\<open>2^3^2\<close> and \<^verbatim>\<open>2**3**2\<close> are \<open>2^(3^2) = 512\<close>, and \<^verbatim>\<open>2*3^2\<close> is \<open>2 * 9\<close>.
\<close>

theorem exponent_right_assoc:
  "(parseFactor A e p = (Inr b, p1) \<and> skipSpaces e p1 = q \<and>
    (Suc q < length e \<and> e ! q = CHR ''*'' \<and> e ! Suc q = CHR ''*'' \<and> q' = q + 2 \<or>
     q < length e \<and> e ! q = CHR ''^'' \<and> q' = q + 1) \<and>
    parsePower A e q' = (Inr ex, p3)
    \<longrightarrow> parsePower A e p = (Inr (dpow A b ex), p3)) \<and>
   (skipSpaces e p = q \<and> q < length e \<and> e ! q = CHR ''*''
    \<longrightarrow> parseTerm_loop A e val p =
          (case parsePower A e (Suc q) of
             (Inl x, p') \<Rightarrow> (Inl x, p')
           | (Inr r, p') \<Rightarrow> parseTerm_loop A e (dmul A val r) p')) \<and>
   evaluate ieee ''2^3^2'' = Inr (Finite False 512) \<and>
   evaluate ieee ''2**3**2'' = Inr (Finite False 512) \<and>
   evaluate ieee ''(2^3)^2'' = Inr (Finite False 64) \<and>
   evaluate ieee ''2*3^2'' = Inr (Finite False 18) \<and>
   evaluate ieee ''2^3*2'' = Inr (Finite False 16) \<and>
   evaluate ieee ''18/3^2'' = Inr (Finite False 2) \<and>
   evaluate ieee ''19%3^2'' = Inr (Finite False 1) \<and>
   evaluate ieee ''2* *3'' = Inl (ExpectedNumber 3)"
proof (intro conjI impI)
  assume h: "parseFactor A e p = (Inr b, p1) \<and> skipSpaces e p1 = q \<and>
    (Suc q < length e \<and> e ! q = CHR ''*'' \<and> e ! Suc q = CHR ''*'' \<and> q' = q + 2 \<or>
     q < length e \<and> e ! q = CHR ''^'' \<and> q' = q + 1) \<and>
    parsePower A e q' = (Inr ex, p3)"
  then have f: "parseFactor A e p = (Inr b, p1)" and q: "skipSpaces e p1 = q"
    and x: "parsePower A e q' = (Inr ex, p3)"
    by simp_all
  from h consider
      (starstar) "Suc q < length e" "e ! q = CHR ''*''" "e ! Suc q = CHR ''*''" "q' = q + 2"
    | (caret) "q < length e" "e ! q = CHR ''^''" "q' = q + 1"
    by blast
  then show "parsePower A e p = (Inr (dpow A b ex), p3)"
  proof cases
    case starstar
    have "matchStr e ''**'' p1 = (True, q')"
      using q starstar by (simp add: matchStr_starstar)
    then show ?thesis
      by (subst parsePower.simps) (simp add: f x)
  next
    case caret
    have s: "matchStr e ''**'' p1 = (False, q)"
      using q caret by (simp add: matchStr_not_star)
    have "match e (CHR ''^'') q = (True, q')"
      using skipSpaces_fixed [OF q] caret by (simp add: match_at)
    with s show ?thesis
      by (subst parsePower.simps) (simp add: f x)
  qed
next
  assume "skipSpaces e p = q \<and> q < length e \<and> e ! q = CHR ''*''"
  then have "match e (CHR ''*'') p = (True, Suc q)" by (simp add: match_at)
  then show "parseTerm_loop A e val p =
          (case parsePower A e (Suc q) of
             (Inl x, p') \<Rightarrow> (Inl x, p')
           | (Inr r, p') \<Rightarrow> parseTerm_loop A e (dmul A val r) p')"
    by (subst parseTerm_loop.simps) simp
qed (simp_all add: eval_rules ieee_rules)

theorem exponent_right_assoc_witness:
  "parsePower ieee ''2^3^2'' 0 = (Inr (ieee_pow (Finite False 2) (Finite False 9)), 5) \<and>
   parsePower ieee ''2**3'' 0 = (Inr (ieee_pow (Finite False 2) (Finite False 3)), 4) \<and>
   parseTerm_loop ieee ''2*3^2'' (Finite False 2) 1 = (Inr (Finite False 18), 5)"
proof -
  have f: "parseFactor ieee ''2^3^2'' 0 = (Inr (Finite False 2), 1)"
    and x: "parsePower ieee ''2^3^2'' 2 = (Inr (Finite False 9), 5)"
    and s: "skipSpaces ''2^3^2'' 1 = 1"
    by (simp_all add: eval_rules ieee_rules)
  have f': "parseFactor ieee ''2**3'' 0 = (Inr (Finite False 2), 1)"
    and x': "parsePower ieee ''2**3'' 3 = (Inr (Finite False 3), 4)"
    and s': "skipSpaces ''2**3'' 1 = 1"
    by (simp_all add: eval_rules ieee_rules)
  from exponent_right_assoc [of ieee "''2^3^2''" 0 "Finite False 2" 1 1 2 "Finite False 9" 5 "Finite False 2"] f x s
  have 1: "parsePower ieee ''2^3^2'' 0 = (Inr (ieee_pow (Finite False 2) (Finite False 9)), 5)"
    by (simp add: ieee_def)
  from exponent_right_assoc [of ieee "''2**3''" 0 "Finite False 2" 1 1 3 "Finite False 3" 4 "Finite False 2"] f' x' s'
  have 2: "parsePower ieee ''2**3'' 0 = (Inr (ieee_pow (Finite False 2) (Finite False 3)), 4)"
    by (simp add: ieee_def)
  have m: "skipSpaces ''2*3^2'' 1 = 1"
    and pw: "parsePower ieee ''2*3^2'' (Suc 1) = (Inr (Finite False 9), 5)"
    and lp: "parseTerm_loop ieee ''2*3^2'' (Finite False 18) 5 = (Inr (Finite False 18), 5)"
    and ml: "ieee_mul (Finite False 2) (Finite False 9) = Finite False 18"
    by (simp_all add: eval_rules ieee_rules)
  from exponent_right_assoc [of ieee "''2*3^2''" 1 "Finite False 2" 1 1 2 "Finite False 9" 5 "Finite False 2"]
    m pw lp ml
  have 3: "parseTerm_loop ieee ''2*3^2'' (Finite False 2) 1 = (Inr (Finite False 18), 5)"
    by (simp add: ieee_def)
  from 1 2 3 show ?thesis by simp
qed

lemma scanDigits_flag: "scanDigits e b p = (b', p') \<Longrightarrow> b' \<Longrightarrow> b \<or> p < p'"
proof (induction e b p rule: scanDigits.induct)
  case (1 e expDigits p)
  from "1.prems" show ?case
    by (subst (asm) scanDigits.simps) (auto split: if_splits dest: scanDigits_ge)
qed

lemma scanExponent_result: "scanExponent e p = p \<or> Suc p < scanExponent e p"
proof (cases "p < length e \<and> (e ! p = CHR ''e'' \<or> e ! p = CHR ''E'')")
  case False
  then show ?thesis by (auto simp: scanExponent_def)
next
  case True
  define p2 where "p2 = (if Suc p < length e \<and> (e ! Suc p = CHR ''+'' \<or> e ! Suc p = CHR ''-'')
                          then Suc (Suc p) else Suc p)"
  obtain b p3 where d: "scanDigits e False p2 = (b, p3)" by (cases "scanDigits e False p2") auto
  have eq: "scanExponent e p = (if \<not> b then p else p3)"
    using True d by (simp add: scanExponent_eval p2_def)
  show ?thesis
  proof (cases b)
    case False
    with eq show ?thesis by simp
  next
    case True
    with scanDigits_flag [OF d] have "p2 < p3" by simp
    moreover have "Suc p \<le> p2" by (simp add: p2_def)
    ultimately show ?thesis using eq True by simp
  qed
qed

lemma peek_cursor: "p \<le> snd (peek e p) \<and> (p \<le> length e \<longrightarrow> snd (peek e p) \<le> length e)"
  using skipSpaces_ge [of p e] skipSpaces_le [of p e] by (simp add: peek_def Let_def)

lemma parse_cursor: "snd (parse A e) \<le> length e"
proof -
  obtain r p where x: "parseExpression A e 0 = (r, p)" by (cases "parseExpression A e 0") auto
  from progressD(2) [OF parser_progress(1) x] have "p \<le> length e" by simp
  with x skipSpaces_le [of p e] show ?thesis
    by (cases r) (simp_all add: parse_def Let_def)
qed

text \<open>
  Claim C9. The cursor invariant. From a cursor within the expression
  (\<open>p \<le> length e\<close>), every parsing step (each utility, each scan of \<open>parseNumber\<close>, each
  grammar function, whether it returns or throws) ends with the cursor within the
  expression and not before where the step began. The one assignment that moves the
  cursor back is the rollback in the scan of an exponent suffix: that scan ends either
  exactly where it began, at the saved position of the \<^verbatim>\<open>e\<close>, or past the \<^verbatim>\<open>e\<close> and at
  least one digit. A whole evaluation starts at \<open>0\<close> and ends within the expression.
\<close>

theorem cursor_invariant:
  "(p \<le> length e \<longrightarrow>
      (p \<le> skipSpaces e p \<and> skipSpaces e p \<le> length e) \<and>
      (p \<le> snd (match e c p) \<and> snd (match e c p) \<le> length e) \<and>
      (p \<le> snd (matchStr e s p) \<and> snd (matchStr e s p) \<le> length e) \<and>
      (p \<le> snd (peek e p) \<and> snd (peek e p) \<le> length e) \<and>
      (p \<le> snd (nextStartsFactor e p) \<and> snd (nextStartsFactor e p) \<le> length e) \<and>
      (p \<le> snd (snd (scanMantissa e sd sdot p)) \<and>
       snd (snd (scanMantissa e sd sdot p)) \<le> length e) \<and>
      (p \<le> snd (scanDigits e b p) \<and> snd (scanDigits e b p) \<le> length e) \<and>
      (p \<le> scanExponent e p \<and> scanExponent e p \<le> length e) \<and>
      (p \<le> snd (parseNumber A e p) \<and> snd (parseNumber A e p) \<le> length e) \<and>
      (p \<le> snd (parseFactor A e p) \<and> snd (parseFactor A e p) \<le> length e) \<and>
      (p \<le> snd (parsePower A e p) \<and> snd (parsePower A e p) \<le> length e) \<and>
      (p \<le> snd (parseTerm_loop A e val p) \<and> snd (parseTerm_loop A e val p) \<le> length e) \<and>
      (p \<le> snd (parseTerm A e p) \<and> snd (parseTerm A e p) \<le> length e) \<and>
      (p \<le> snd (parseExpression_loop A e val p) \<and>
       snd (parseExpression_loop A e val p) \<le> length e) \<and>
      (p \<le> snd (parseExpression A e p) \<and> snd (parseExpression A e p) \<le> length e)) \<and>
   (scanExponent e p = p \<or> Suc p < scanExponent e p) \<and>
   snd (parse A e) \<le> length e"
proof (intro conjI impI)
  show "scanExponent e p = p \<or> Suc p < scanExponent e p" by (rule scanExponent_result)
  show "snd (parse A e) \<le> length e" by (rule parse_cursor)
next
  assume le: "p \<le> length e"
  show "p \<le> skipSpaces e p" by (rule skipSpaces_ge)
  show "skipSpaces e p \<le> length e" using le by (rule skipSpaces_le)
  show "p \<le> snd (match e c p)" by (cases "match e c p") (auto dest: match_mono)
  show "snd (match e c p) \<le> length e" using le by (cases "match e c p") (auto dest: match_bound)
  show "p \<le> snd (matchStr e s p)" by (cases "matchStr e s p") (auto dest: matchStr_mono)
  show "snd (matchStr e s p) \<le> length e"
    using le by (cases "matchStr e s p") (auto dest: matchStr_bound)
  show "p \<le> snd (peek e p)" using peek_cursor by blast
  show "snd (peek e p) \<le> length e" using le peek_cursor by blast
  show "p \<le> snd (nextStartsFactor e p)"
    by (cases "nextStartsFactor e p") (auto dest: nextStartsFactor_mono)
  show "snd (nextStartsFactor e p) \<le> length e"
    using le by (cases "nextStartsFactor e p") (auto dest: nextStartsFactor_bound)
  show "p \<le> snd (snd (scanMantissa e sd sdot p))"
    by (cases "scanMantissa e sd sdot p") (auto dest: scanMantissa_ge)
  show "snd (snd (scanMantissa e sd sdot p)) \<le> length e"
    using le by (cases "scanMantissa e sd sdot p") (auto dest: scanMantissa_le)
  show "p \<le> snd (scanDigits e b p)" by (cases "scanDigits e b p") (auto dest: scanDigits_ge)
  show "snd (scanDigits e b p) \<le> length e"
    using le by (cases "scanDigits e b p") (auto dest: scanDigits_le)
  show "p \<le> scanExponent e p" by (rule scanExponent_ge)
  show "scanExponent e p \<le> length e" using le by (rule scanExponent_le)
  show "p \<le> snd (parseNumber A e p)"
    by (cases "parseNumber A e p") (auto dest: parseNumber_mono)
  show "snd (parseNumber A e p) \<le> length e"
    using le by (cases "parseNumber A e p") (auto dest: parseNumber_bound)
  show "p \<le> snd (parseFactor A e p)" using parser_progress(6) [of e p A] by (simp add: progress_def)
  show "snd (parseFactor A e p) \<le> length e"
    using le parser_progress(6) [of e p A] by (simp add: progress_def)
  show "p \<le> snd (parsePower A e p)" using parser_progress(5) [of e p A] by (simp add: progress_def)
  show "snd (parsePower A e p) \<le> length e"
    using le parser_progress(5) [of e p A] by (simp add: progress_def)
  show "p \<le> snd (parseTerm_loop A e val p)" using parser_progress(4) [of e p A val] by (simp add: progress_def)
  show "snd (parseTerm_loop A e val p) \<le> length e"
    using le parser_progress(4) [of e p A val] by (simp add: progress_def)
  show "p \<le> snd (parseTerm A e p)" using parser_progress(3) [of e p A] by (simp add: progress_def)
  show "snd (parseTerm A e p) \<le> length e"
    using le parser_progress(3) [of e p A] by (simp add: progress_def)
  show "p \<le> snd (parseExpression_loop A e val p)"
    using parser_progress(2) [of e p A val] by (simp add: progress_def)
  show "snd (parseExpression_loop A e val p) \<le> length e"
    using le parser_progress(2) [of e p A val] by (simp add: progress_def)
  show "p \<le> snd (parseExpression A e p)" using parser_progress(1) [of e p A] by (simp add: progress_def)
  show "snd (parseExpression A e p) \<le> length e"
    using le parser_progress(1) [of e p A] by (simp add: progress_def)
qed

theorem cursor_invariant_witness:
  "(2::nat) \<le> length ''1 + 2e'' \<and>
   2 \<le> snd (parseExpression_loop ieee ''1 + 2e'' (Finite False 1) 2) \<and>
   snd (parseExpression_loop ieee ''1 + 2e'' (Finite False 1) 2) \<le> length ''1 + 2e'' \<and>
   snd (parse ieee ''1 + 2e'') \<le> length ''1 + 2e''"
  using cursor_invariant [of 2 "''1 + 2e''" "CHR ''+''" "''**''" False False False ieee "Finite False 1"]
  by simp

text \<open>
  Claim C10. A number literal takes at most one decimal point. Once a point has been
  seen, the scan of the mantissa stops at the next \<^verbatim>\<open>.\<close>; that character starts a new
  factor, so the loop of \<open>parseTerm\<close> multiplies. The evaluation of \<^verbatim>\<open>1.2.3\<close> therefore
  succeeds and returns the product of the literals \<^verbatim>\<open>1.2\<close> and \<^verbatim>\<open>.3\<close>.
\<close>

theorem second_decimal_point:
  "(p < length e \<and> e ! p = CHR ''.'' \<longrightarrow> scanMantissa e sd True p = (sd, True, p)) \<and>
   (skipSpaces e p = q \<and> q < length e \<and> e ! q = CHR ''.'' \<longrightarrow> nextStartsFactor e p = (True, q)) \<and>
   (stod A ''1.2'' = Inr a \<and> stod A ''.3'' = Inr b
    \<longrightarrow> parse A ''1.2.3'' = (Inr (dmul A a b), 5)) \<and>
   ieee_stod ''1.2'' = Inr (Finite False (5404319552844595 / 4503599627370496)) \<and>
   ieee_stod ''.3'' = Inr (Finite False (5404319552844595 / 18014398509481984)) \<and>
   evaluate ieee ''1.2.3'' = Inr (Finite False (3242591731706757 / 9007199254740992))"
proof (intro conjI impI)
  assume "p < length e \<and> e ! p = CHR ''.''"
  then show "scanMantissa e sd True p = (sd, True, p)"
    by (subst scanMantissa.simps) (simp add: isdigit_def)
next
  assume "skipSpaces e p = q \<and> q < length e \<and> e ! q = CHR ''.''"
  then show "nextStartsFactor e p = (True, q)"
    by (simp add: nextStartsFactor_eval)
next
  assume "stod A ''1.2'' = Inr a \<and> stod A ''.3'' = Inr b"
  then show "parse A ''1.2.3'' = (Inr (dmul A a b), 5)"
    by (simp add: eval_rules)
qed (simp_all add: eval_rules ieee_rules)

theorem second_decimal_point_witness:
  "scanMantissa ''1.2.3'' True True 3 = (True, True, 3) \<and>
   nextStartsFactor ''1.2.3'' 3 = (True, 3) \<and>
   parse ieee ''1.2.3'' =
     (Inr (ieee_mul (Finite False (5404319552844595 / 4503599627370496))
                    (Finite False (5404319552844595 / 18014398509481984))), 5)"
proof -
  have a: "ieee_stod ''1.2'' = Inr (Finite False (5404319552844595 / 4503599627370496))"
    and b: "ieee_stod ''.3'' = Inr (Finite False (5404319552844595 / 18014398509481984))"
    and s: "skipSpaces ''1.2.3'' 3 = 3"
    by (simp_all add: eval_rules ieee_rules)
  from second_decimal_point [of 3 "''1.2.3''" True 3 ieee
      "Finite False (5404319552844595 / 4503599627370496)"
      "Finite False (5404319552844595 / 18014398509481984)"] a b s
  show ?thesis by (simp add: ieee_def)
qed

end
